theory Spec2Isabelle
  imports Main
begin

section \<open>The in-memory model: class State of app.js\<close>

text \<open>
  The assignment ledger of \<^verbatim>\<open>app.js\<close> is a plain JavaScript object whose keys are
  spinner names and whose values are recipient names. It is modelled as the list of its
  own properties in the order in which JavaScript enumerates them: \<open>Object.keys\<close> is the
  list of first components and \<open>Object.values\<close> the list of second components.

  A plain object inherits the members of \<^verbatim>\<open>Object.prototype\<close>. A property read
  \<open>obj[key]\<close> gives the own value when the key is an own property, the inherited member
  (a function, or the prototype object for \<^verbatim>\<open>__proto__\<close>) when the key is one of the
  inherited names, and \<^verbatim>\<open>undefined\<close> otherwise.
\<close>

type_synonym assignments = "(string \<times> string) list"

record State =
  participants :: "string list"
  assignments :: assignments
  assignedRecipients :: "string set"

text \<open>The constructor: no participants, no assignments, an empty set.\<close>

definition newState :: State where
  "newState = \<lparr>participants = [], assignments = [], assignedRecipients = {}\<rparr>"

text \<open>\<open>Object.keys(obj)\<close> and \<open>Object.values(obj)\<close>.\<close>

definition objectKeys :: "assignments \<Rightarrow> string list" where
  "objectKeys obj = map fst obj"

definition objectValues :: "assignments \<Rightarrow> string list" where
  "objectValues obj = map snd obj"

text \<open>The names that every plain object inherits from \<^verbatim>\<open>Object.prototype\<close>.\<close>

definition objectPrototypeNames :: "string list" where
  "objectPrototypeNames =
     [''constructor'', ''__defineGetter__'', ''__defineSetter__'', ''hasOwnProperty'',
      ''__lookupGetter__'', ''__lookupSetter__'', ''isPrototypeOf'', ''propertyIsEnumerable'',
      ''toString'', ''valueOf'', ''__proto__'', ''toLocaleString'']"

text \<open>
  The result of a property read, as far as its truthiness goes: \<^verbatim>\<open>undefined\<close> and the
  empty string are falsy; every other string and every inherited member is truthy.
\<close>

datatype jsValue = Undefined | Str string | Inherited

fun truthy :: "jsValue \<Rightarrow> bool" where
  "truthy Undefined = False"
| "truthy (Str s) = (s \<noteq> [])"
| "truthy Inherited = True"

definition propertyRead :: "assignments \<Rightarrow> string \<Rightarrow> jsValue" where
  "propertyRead obj key =
     (case map_of obj key of
        Some v \<Rightarrow> Str v
      | None \<Rightarrow> if key \<in> set objectPrototypeNames then Inherited else Undefined)"

text \<open>
  JavaScript enumerates the own keys that are array indices first, in ascending numeric
  order, and the other keys after them in the order of their creation. A key is an array
  index when it is the canonical decimal form of a number below \<open>2\<^sup>3\<^sup>2 - 1\<close>.
\<close>

definition isDigit :: "char \<Rightarrow> bool" where
  "isDigit ch = (ch \<in> set ''0123456789'')"

definition decimalValue :: "string \<Rightarrow> nat" where
  "decimalValue s = foldl (\<lambda>n ch. 10 * n + (of_char ch - 48)) 0 s"

definition arrayIndex :: "string \<Rightarrow> nat option" where
  "arrayIndex s =
     (case s of
        [] \<Rightarrow> None
      | ch # rest \<Rightarrow>
          if list_all isDigit s \<and> (if ch = CHR ''0'' then rest = [] else True)
             \<and> decimalValue s < 4294967295
          then Some (decimalValue s) else None)"

text \<open>
  \<open>keyBefore new old\<close>: a new key is enumerated before an existing key when the new key
  is an array index and the existing key is a larger index or no index at all.
\<close>

definition keyBefore :: "string \<Rightarrow> string \<Rightarrow> bool" where
  "keyBefore new old =
     (case arrayIndex new of
        None \<Rightarrow> False
      | Some n \<Rightarrow> (case arrayIndex old of None \<Rightarrow> True | Some m \<Rightarrow> n < m))"

fun insertKey :: "string \<Rightarrow> string \<Rightarrow> assignments \<Rightarrow> assignments" where
  "insertKey key v [] = [(key, v)]"
| "insertKey key v (p # ps) =
     (if keyBefore key (fst p) then (key, v) # p # ps else p # insertKey key v ps)"

fun replaceValue :: "string \<Rightarrow> string \<Rightarrow> assignments \<Rightarrow> assignments" where
  "replaceValue key v [] = []"
| "replaceValue key v (p # ps) =
     (if fst p = key then (key, v) # ps else p # replaceValue key v ps)"

text \<open>
  A property write \<open>obj[key] = v\<close> with a string \<open>v\<close>: an own property keeps its place and
  takes the value; the assignment to \<^verbatim>\<open>__proto__\<close>, when that is not an own property,
  calls the inherited setter, which ignores a string and creates nothing; every other
  new key becomes an own property (an inherited data member does not prevent that).
\<close>

definition propertyWrite :: "string \<Rightarrow> string \<Rightarrow> assignments \<Rightarrow> assignments" where
  "propertyWrite key v obj =
     (if key \<in> set (objectKeys obj) then replaceValue key v obj
      else if key = ''__proto__'' then obj
      else insertKey key v obj)"

text \<open>
  \<open>updateAssignedRecipients\<close> clears the set and adds every value of the mapping.
\<close>

definition updateAssignedRecipients :: "State \<Rightarrow> State" where
  "updateAssignedRecipients st = st\<lparr>assignedRecipients := set (objectValues (assignments st))\<rparr>"

text \<open>\<open>addAssignment(spinner, recipient)\<close>: write the entry, recompute the set.\<close>

definition addAssignment :: "string \<Rightarrow> string \<Rightarrow> State \<Rightarrow> State" where
  "addAssignment spinner recipient st =
     updateAssignedRecipients (st\<lparr>assignments := propertyWrite spinner recipient (assignments st)\<rparr>)"

text \<open>
  \<open>getEligibleRecipients(spinnerIdentity = null)\<close>: the participants that are not in the
  assigned set; when an identity is given and is not the empty string, that name is
  filtered out as well. \<open>None\<close> is the call without an argument.
\<close>

definition given :: "string option \<Rightarrow> jsValue" where
  "given x = (case x of None \<Rightarrow> Undefined | Some s \<Rightarrow> Str s)"

definition getEligibleRecipients :: "State \<Rightarrow> string option \<Rightarrow> string list" where
  "getEligibleRecipients st spinnerIdentity =
     (let eligible = filter (\<lambda>p. p \<notin> assignedRecipients st) (participants st)
      in if truthy (given spinnerIdentity)
         then filter (\<lambda>p. Some p \<noteq> spinnerIdentity) eligible
         else eligible)"

text \<open>
  \<open>mergeAssignments(remoteAssignments)\<close>: for every key of the remote object, in order,
  the remote value is stored when the local read of that key is falsy
  (\<^verbatim>\<open>if (!this.assignments[key])\<close>); then the set is recomputed. The remote value of a
  key taken from \<open>Object.keys\<close> always exists, so the \<open>None\<close> branch is never taken.
\<close>

definition mergeKey :: "assignments \<Rightarrow> assignments \<Rightarrow> string \<Rightarrow> assignments" where
  "mergeKey remoteAssignments local key =
     (if \<not> truthy (propertyRead local key)
      then (case map_of remoteAssignments key of
              Some v \<Rightarrow> propertyWrite key v local
            | None \<Rightarrow> local)
      else local)"

definition mergeAssignments :: "assignments \<Rightarrow> State \<Rightarrow> State" where
  "mergeAssignments remoteAssignments st =
     updateAssignedRecipients
       (st\<lparr>assignments :=
             foldl (mergeKey remoteAssignments) (assignments st) (objectKeys remoteAssignments)\<rparr>)"

text \<open>
  A remote key is settled in a local mapping: the local read is truthy, or the local
  value is the remote value.
\<close>

definition settled :: "assignments \<Rightarrow> assignments \<Rightarrow> string \<Rightarrow> bool" where
  "settled r a k = (truthy (propertyRead a k) \<or> map_of a k = map_of r k)"

text \<open>
  A ledger has unique recipients when no recipient is the value of two entries.
\<close>

definition uniqueRecipients :: "assignments \<Rightarrow> bool" where
  "uniqueRecipients obj = distinct (objectValues obj)"

section \<open>The stores: classes GitHubStore and LocalStore\<close>

text \<open>
  \<open>this.store\<close> is one of the controller's two store objects.
\<close>

datatype storeKind = GitHub | Local

text \<open>
  The errors that reach \<open>commitAssignment\<close>: an HTTP response that is not ok (the code
  sets \<open>error.status\<close>), a rejected \<open>fetch\<close> or an undecodable body (no status), the
  error thrown by the final validation, and an exception of \<open>localStorage.setItem\<close>.
\<close>

datatype jsError = HttpError nat | NetworkError | AlreadyAssigned string | StorageError

fun status :: "jsError \<Rightarrow> nat option" where
  "status (HttpError n) = Some n"
| "status NetworkError = None"
| "status (AlreadyAssigned r) = None"
| "status StorageError = None"

text \<open>
  The content of the state file as \<open>commitAssignment\<close> looks at it: \<open>null\<close>, a JSON
  document without a truthy \<open>assignments\<close> member, or a document with an assignments
  object (the empty object is truthy).
\<close>

datatype fileContent = Null | Json "assignments option"

type_synonym fileData = "fileContent \<times> string option"

text \<open>
  What the network gives to a request: a rejected fetch, or a response with its status
  and, for a read, the decoded content and the sha of the file.
\<close>

datatype getResponse = GetNetworkFailure | GetResponse nat fileContent "string option"

datatype putResponse = PutNetworkFailure | PutResponse nat

definition responseOk :: "nat \<Rightarrow> bool" where
  "responseOk s = (200 \<le> s \<and> s \<le> 299)"

text \<open>
  \<open>GitHubStore.getFile\<close>: a response that is not ok is \<open>{content: null, sha: null}\<close> for
  404 and an error carrying the status otherwise.
\<close>

fun githubGetFile :: "getResponse \<Rightarrow> jsError + fileData" where
  "githubGetFile GetNetworkFailure = Inl NetworkError"
| "githubGetFile (GetResponse s content sha) =
     (if \<not> responseOk s
      then (if s = 404 then Inr (Null, None) else Inl (HttpError s))
      else Inr (content, sha))"

text \<open>\<open>GitHubStore.putFile\<close>: every response that is not ok is thrown with its status.\<close>

fun githubPutFile :: "putResponse \<Rightarrow> jsError + unit" where
  "githubPutFile PutNetworkFailure = Inl NetworkError"
| "githubPutFile (PutResponse s) = (if \<not> responseOk s then Inl (HttpError s) else Inr ())"

text \<open>
  \<open>LocalStore.getFile\<close> on the \<open>localStorage\<close> item of the state path: no item gives
  \<open>{content: null, sha: null}\<close>; an item gives its content with the sha
  \<^verbatim>\<open>'local'\<close>. It never throws.
\<close>

fun localGetFile :: "fileContent option \<Rightarrow> fileData" where
  "localGetFile None = (Null, None)"
| "localGetFile (Some content) = (content, Some ''local'')"

section \<open>The controller: handleSpin and commitAssignment\<close>

text \<open>
  The controller's fields that a spin reads or writes: the in-memory state, the active
  store, the loading flag, the wheel's spinning flag, \<open>config.maxCommitRetries\<close> (\<open>None\<close>
  when it is not set) and the \<open>localStorage\<close> item under the state path. The wheel's
  participant array is the state's array (\<open>setParticipants\<close> receives that reference).
  Drawing, the result modal's markup and the confetti are left out.
\<close>

record Controller =
  state :: State
  store :: storeKind
  isLoading :: bool
  wheelSpinning :: bool
  maxCommitRetries :: "int option"
  localItem :: "fileContent option"

text \<open>
  What the outside world does during one pass of the commit loop: the answer to the
  read, the answer to the write, whether \<open>localStorage.setItem\<close> succeeds, the number
  that \<open>Math.random\<close> turns into an index, and the value that the
  \<^verbatim>\<open>spinner-identity\<close> select element holds when the pass reads it. Only the spin
  button is locked during a spin, so the user may have changed the select since the
  click. The environment of a run gives one of these for each pass.
\<close>

record attemptEnv =
  getResp :: getResponse
  putResp :: putResponse
  localPutOk :: bool
  random :: nat
  selectValue :: string

type_synonym env = "nat \<Rightarrow> attemptEnv"

text \<open>The messages shown by \<open>showToast\<close>, in the order of their appearance in the code.\<close>

datatype toast =
    NoEligibleRemaining      \<comment> \<open>No eligible recipients remaining.\<close>
  | NotEligibleError         \<comment> \<open>Error: Selected recipient is not eligible. Please try again.\<close>
  | NoEligiblePleaseRefresh  \<comment> \<open>No eligible recipients remaining. Please refresh.\<close>
  | FailedToSaveTryAgain     \<comment> \<open>Failed to save assignment. Please try again.\<close>
  | AdjustedDueToConflict    \<comment> \<open>Assignment adjusted due to conflict.\<close>
  | AdjustingToAvailable     \<comment> \<open>Adjusting to available recipient...\<close>
  | ConflictRetrying int int \<comment> \<open>Conflict detected. Retrying... (retryCount/maxRetries)\<close>
  | GitHubWriteFailed        \<comment> \<open>GitHub write failed. Saving to local storage.\<close>
  | FailedToSave             \<comment> \<open>Failed to save assignment.\<close>
  | FailedAfterRetries       \<comment> \<open>Failed after multiple retries. Please refresh and try again.\<close>

text \<open>
  The steps of a run, in order: toasts, the error logged by the outer \<open>catch\<close>, reads
  with the sha they returned, a failed read, the call of \<open>addAssignment\<close> with its spinner
  and recipient, the write of the commit with the store, the sha and the content passed
  to \<open>putFile\<close> and the error that \<open>putFile\<close> threw (\<open>None\<close> when the write was
  accepted), the write of the local fallback (sha \<open>null\<close>), the delay before a retry in
  milliseconds, a wheel animation towards a target, and the result modal.
\<close>

datatype event =
    Toast toast
  | ConsoleError jsError
  | GetFile storeKind "string option"
  | GetFileFailed jsError
  | Assigned string string
  | PutFile storeKind "string option" assignments "jsError option"
  | FallbackPut assignments
  | Delay nat
  | SpinTo string
  | ShowResult string

text \<open>
  How a run ends: the success return after a write that was accepted, the local
  fallback of the outer \<open>catch\<close>, a return because nobody is eligible, the other branch
  of the outer \<open>catch\<close>, the code after the loop, an exception that leaves
  \<open>commitAssignment\<close>, a click that is ignored, the defensive check of \<open>handleSpin\<close>, and
  a wheel that does not start (its callback is never called).
\<close>

datatype outcome =
    Committed string
  | FallenBack string
  | NoEligible
  | SaveFailed
  | RetriesExhausted
  | Uncaught jsError
  | Ignored
  | NotEligible
  | Stalled

type_synonym result = "Controller \<times> outcome \<times> event list"

definition withEvents :: "event list \<Rightarrow> result \<Rightarrow> result" where
  "withEvents pre res = (case res of (c, out, evs) \<Rightarrow> (c, out, pre @ evs))"

text \<open>
  \<open>randomChoice(array)\<close> is \<open>array[Math.floor(Math.random() * array.length)]\<close>: some index
  below the length, here the given number modulo the length; on the empty array the
  read gives \<^verbatim>\<open>undefined\<close>, here \<open>None\<close>.
\<close>

definition randomChoice :: "'a list \<Rightarrow> nat \<Rightarrow> 'a option" where
  "randomChoice array n = (if array = [] then None else Some (array ! (n mod length array)))"

text \<open>
  \<open>Wheel.spinToTarget\<close> starts an animation, and later calls its callback, only when the
  wheel is not spinning, has participants and the target is one of them.
\<close>

definition wheelAccepts :: "Controller \<Rightarrow> string \<Rightarrow> bool" where
  "wheelAccepts c target =
     (\<not> wheelSpinning c \<and> participants (state c) \<noteq> [] \<and> target \<in> set (participants (state c)))"

text \<open>\<open>const maxRetries = this.config.maxCommitRetries || 3\<close>.\<close>

definition maxRetriesOf :: "Controller \<Rightarrow> int" where
  "maxRetriesOf c = (case maxCommitRetries c of None \<Rightarrow> 3 | Some n \<Rightarrow> if n = 0 then 3 else n)"

text \<open>
  Lines 734 to 741: read the state file from the active store; when the read throws,
  read the local store instead and make it the active store.
\<close>

definition readState :: "attemptEnv \<Rightarrow> Controller \<Rightarrow> fileData \<times> Controller \<times> event list" where
  "readState e c =
     (case store c of
        Local \<Rightarrow>
          (let d = localGetFile (localItem c) in (d, c, [GetFile Local (snd d)]))
      | GitHub \<Rightarrow>
          (case githubGetFile (getResp e) of
             Inr d \<Rightarrow> (d, c, [GetFile GitHub (snd d)])
           | Inl err \<Rightarrow>
               (let d = localGetFile (localItem c)
                in (d, c\<lparr>store := Local\<rparr>, [GetFileFailed err, GetFile Local (snd d)]))))"

text \<open>
  Lines 743 to 783: when the file has assignments, merge them, recompute eligibility
  with the value that the identity select holds now, and keep the recipient if it is
  still eligible
  and not assigned. Otherwise return when nobody is eligible, else pick again; on the
  first call (\<open>isAdjustment\<close> false) the wheel spins to the new target and the commit
  starts again from its callback; on an adjustment call the loop goes on with the new
  recipient.
\<close>

datatype revalidated =
    Abort Controller "event list"
  | Adjust Controller string "event list"
  | Proceed Controller string "event list"

definition revalidate :: "attemptEnv \<Rightarrow> bool \<Rightarrow> fileContent \<Rightarrow> Controller \<Rightarrow> string \<Rightarrow> revalidated" where
  "revalidate e isAdjustment content c recipient =
     (case content of
        Json (Some remote) \<Rightarrow>
          (let st = updateAssignedRecipients (mergeAssignments remote (state c));
               c' = c\<lparr>state := st\<rparr>;
               eligible = getEligibleRecipients st (Some (selectValue e))
           in if recipient \<notin> set eligible \<or> recipient \<in> assignedRecipients st
              then (if eligible = []
                    then Abort (c'\<lparr>isLoading := False\<rparr>) [Toast NoEligiblePleaseRefresh]
                    else (case randomChoice eligible (random e) of
                            None \<Rightarrow> Abort (c'\<lparr>isLoading := False\<rparr>) [Toast NoEligiblePleaseRefresh]
                          | Some r \<Rightarrow>
                              if \<not> isAdjustment
                              then Adjust c' r [Toast AdjustedDueToConflict]
                              else Proceed c' r [Toast AdjustingToAvailable]))
              else Proceed c' recipient [])
      | Json None \<Rightarrow> Proceed c recipient []
      | Null \<Rightarrow> Proceed c recipient [])"

text \<open>
  Lines 785 to 826, up to the decision about a retry: the final validation throws when
  the recipient is in the assigned set; otherwise the assignment is added to the state
  and the state is written to the active store with the sha that was read. A write that
  is accepted is the success return. \<open>LocalStore.putFile\<close> ignores the sha and rethrows
  an exception of \<open>localStorage.setItem\<close>.
\<close>

datatype written =
    Done Controller outcome "event list"
  | Thrown Controller jsError "event list"

definition tryCommit :: "attemptEnv \<Rightarrow> Controller \<Rightarrow> string \<Rightarrow> string \<Rightarrow> string option \<Rightarrow> written" where
  "tryCommit e c spinnerName recipient sha =
     (let st = updateAssignedRecipients (state c)
      in if recipient \<in> assignedRecipients st
         then Thrown (c\<lparr>state := st\<rparr>) (AlreadyAssigned recipient) []
         else (let st' = addAssignment spinnerName recipient st;
                   c' = c\<lparr>state := st'\<rparr>;
                   add = Assigned spinnerName recipient;
                   put = PutFile (store c) sha (assignments st')
               in case store c of
                    GitHub \<Rightarrow>
                      (case githubPutFile (putResp e) of
                         Inr u \<Rightarrow> Done (c'\<lparr>isLoading := False\<rparr>) (Committed recipient)
                                   [add, put None, ShowResult recipient]
                       | Inl err \<Rightarrow> Thrown c' err [add, put (Some err)])
                  | Local \<Rightarrow>
                      (if localPutOk e
                       then Done (c'\<lparr>localItem := Some (Json (Some (assignments st'))),
                                     isLoading := False\<rparr>)
                              (Committed recipient) [add, put None, ShowResult recipient]
                       else Thrown c' StorageError [add, put (Some StorageError)])))"

text \<open>
  Lines 827 to 848, the outer \<open>catch\<close>: when the active store is not the local store,
  switch to it, write the state there with sha \<open>null\<close> and show the recipient; an
  exception of that write leaves \<open>commitAssignment\<close>. When the local store is already
  active, report that saving failed.
\<close>

definition commitError :: "attemptEnv \<Rightarrow> Controller \<Rightarrow> jsError \<Rightarrow> string \<Rightarrow> result" where
  "commitError e c err recipient =
     (if store c \<noteq> Local
      then (let put = FallbackPut (assignments (state c))
            in if localPutOk e
               then (c\<lparr>store := Local,
                       localItem := Some (Json (Some (assignments (state c)))),
                       isLoading := False\<rparr>,
                     FallenBack recipient,
                     [ConsoleError err, Toast GitHubWriteFailed, put, ShowResult recipient])
               else (c\<lparr>store := Local\<rparr>, Uncaught StorageError,
                     [ConsoleError err, Toast GitHubWriteFailed, put]))
      else (c\<lparr>isLoading := False\<rparr>, SaveFailed, [ConsoleError err, Toast FailedToSave]))"

text \<open>
  The callback of the adjustment spin catches an exception of the commit it starts.
\<close>

definition afterAdjustment :: "result \<Rightarrow> result" where
  "afterAdjustment res =
     (case res of
        (c, Uncaught err, evs) \<Rightarrow>
          (c\<lparr>isLoading := False\<rparr>, SaveFailed, evs @ [ConsoleError err, Toast FailedToSaveTryAgain])
      | (c, out, evs) \<Rightarrow> (c, out, evs))"

text \<open>
  The loop of \<open>commitAssignment\<close>, one pass for each call of \<open>commitLoop\<close>; \<open>i\<close> counts
  the passes of the whole spin and selects the environment of the pass. A write rejected
  with status 409 increments \<open>retryCount\<close> and, while it is below \<open>maxRetries\<close>, shows
  a toast, waits 1000 milliseconds and runs the next pass; every other error, and the
  409 that exhausts the count, is thrown to the outer \<open>catch\<close>. The adjustment calls
  \<open>commitAssignment\<close> anew, with \<open>isAdjustment\<close> true and a count that starts at 0.
  The code after the loop runs when the loop condition fails.
\<close>

function commitLoop ::
  "env \<Rightarrow> int \<Rightarrow> nat \<Rightarrow> Controller \<Rightarrow> string \<Rightarrow> string \<Rightarrow> bool \<Rightarrow> int \<Rightarrow> result" where
  "commitLoop env maxRetries i c spinnerName recipient isAdjustment retryCount =
     (if \<not> retryCount < maxRetries
      then (c\<lparr>isLoading := False\<rparr>, RetriesExhausted, [Toast FailedAfterRetries])
      else (case readState (env i) c of
              (stateData, c1, ev1) \<Rightarrow>
        (case revalidate (env i) isAdjustment (fst stateData) c1 recipient of
           Abort c2 ev2 \<Rightarrow> (c2, NoEligible, ev1 @ ev2)
         | Adjust c2 r ev2 \<Rightarrow>
             (if wheelAccepts c2 r
              then withEvents (ev1 @ SpinTo r # ev2)
                     (afterAdjustment (commitLoop env maxRetries (Suc i) c2 spinnerName r True 0))
              else (c2, Stalled, ev1 @ ev2))
         | Proceed c2 r ev2 \<Rightarrow>
             (case tryCommit (env i) c2 spinnerName r (snd stateData) of
                Done c3 out ev3 \<Rightarrow> (c3, out, ev1 @ ev2 @ ev3)
              | Thrown c3 err ev3 \<Rightarrow>
                  (if status err = Some 409 \<and> retryCount + 1 < maxRetries
                   then withEvents
                          (ev1 @ ev2 @ ev3
                             @ [Toast (ConflictRetrying (retryCount + 1) maxRetries), Delay 1000])
                          (commitLoop env maxRetries (Suc i) c3 spinnerName r isAdjustment
                             (retryCount + 1))
                   else withEvents (ev1 @ ev2 @ ev3) (commitError (env i) c3 err r))))))"
  by pat_completeness auto
termination
  by (relation "measure (\<lambda>(env, maxRetries, i, c, spinnerName, recipient, isAdjustment, retryCount).
        (if isAdjustment then 0 else nat maxRetries + 1) + nat (maxRetries - retryCount))")
     (auto simp: revalidate_def Let_def split: fileContent.splits option.splits if_splits)

declare commitLoop.simps [simp del]

definition commitAssignment :: "env \<Rightarrow> Controller \<Rightarrow> string \<Rightarrow> string \<Rightarrow> bool \<Rightarrow> result" where
  "commitAssignment env c spinnerName recipient isAdjustment =
     commitLoop env (maxRetriesOf c) 0 c spinnerName recipient isAdjustment 0"

text \<open>
  \<open>handleSpin\<close>: a click while loading or spinning is ignored. Otherwise the assigned set
  is recomputed and the eligible recipients are computed with \<open>spinnerId\<close>, the value of
  the identity select at the click; with nobody eligible a toast is shown. The target is
  picked at random (\<open>pick\<close> is the random number), checked once more, the interface is
  locked, and the wheel spins to the target; its callback commits for the identity, or
  for \<^verbatim>\<open>'anonymous'\<close> when the identity is the empty string.
\<close>

definition handleSpin :: "env \<Rightarrow> string \<Rightarrow> nat \<Rightarrow> Controller \<Rightarrow> result" where
  "handleSpin env spinnerId pick c =
     (if isLoading c \<or> wheelSpinning c then (c, Ignored, [])
      else (let st = updateAssignedRecipients (state c);
                c1 = c\<lparr>state := st\<rparr>;
                eligible = getEligibleRecipients st (Some spinnerId)
            in if eligible = [] then (c1, NoEligible, [Toast NoEligibleRemaining])
               else (case randomChoice eligible pick of
                       None \<Rightarrow> (c1, NotEligible, [Toast NotEligibleError])
                     | Some target \<Rightarrow>
                         if target \<notin> set eligible \<or> target \<in> assignedRecipients st
                         then (c1, NotEligible, [Toast NotEligibleError])
                         else (let c2 = c1\<lparr>isLoading := True\<rparr>
                               in if wheelAccepts c2 target
                                  then withEvents [SpinTo target]
                                         (commitAssignment env c2
                                            (if spinnerId \<noteq> [] then spinnerId else ''anonymous'')
                                            target False)
                                  else (c2, Stalled, [])))))"

section \<open>Reading a run\<close>

text \<open>The three parts of a result.\<close>

definition finalOf :: "result \<Rightarrow> Controller" where
  "finalOf res = fst res"

definition outcomeOf :: "result \<Rightarrow> outcome" where
  "outcomeOf res = fst (snd res)"

definition eventsOf :: "result \<Rightarrow> event list" where
  "eventsOf res = snd (snd res)"

text \<open>
  Kinds of events: reads; writes of the commit to GitHub; the retry toast and the delay;
  and the steps of the loop, which are the reads, the calls of \<open>addAssignment\<close>, the
  writes of the commit, the retry toast, the delay and the wheel animation.
\<close>

fun isRead :: "event \<Rightarrow> bool" where
  "isRead (GetFile s h) = True"
| "isRead (GetFileFailed err) = True"
| "isRead e = False"

fun isGitHubPut :: "event \<Rightarrow> bool" where
  "isGitHubPut (PutFile GitHub h m x) = True"
| "isGitHubPut e = False"

fun isRetry :: "event \<Rightarrow> bool" where
  "isRetry (Delay d) = True"
| "isRetry (Toast (ConflictRetrying k m)) = True"
| "isRetry e = False"

fun isLoopStep :: "event \<Rightarrow> bool" where
  "isLoopStep (GetFile s h) = True"
| "isLoopStep (GetFileFailed err) = True"
| "isLoopStep (Assigned sp r) = True"
| "isLoopStep (PutFile s h m x) = True"
| "isLoopStep (Delay d) = True"
| "isLoopStep (Toast (ConflictRetrying k m)) = True"
| "isLoopStep (Toast AdjustedDueToConflict) = True"
| "isLoopStep (Toast AdjustingToAvailable) = True"
| "isLoopStep (SpinTo r) = True"
| "isLoopStep e = False"

definition startsWithRead :: "event list \<Rightarrow> bool" where
  "startsWithRead es = (case es of [] \<Rightarrow> False | e # rest \<Rightarrow> isRead e)"

text \<open>
  \<open>backoffOk\<close>: every delay of the trace lasts 1000 milliseconds and is directly followed
  by a read of the state file.
\<close>

fun backoffOk :: "event list \<Rightarrow> bool" where
  "backoffOk [] = True"
| "backoffOk (Delay d # es) = (d = 1000 \<and> startsWithRead es \<and> backoffOk es)"
| "backoffOk (e # es) = backoffOk es"

text \<open>
  \<open>writesFresh prev es\<close>: every write of the commit in the trace passes the sha returned
  by the most recent read before it (\<open>prev\<close> is the sha of the most recent read before
  the trace).
\<close>

fun writesFresh :: "string option \<Rightarrow> event list \<Rightarrow> bool" where
  "writesFresh prev [] = True"
| "writesFresh prev (GetFile s h # es) = writesFresh h es"
| "writesFresh prev (PutFile s h m x # es) = (h = prev \<and> writesFresh prev es)"
| "writesFresh prev (e # es) = writesFresh prev es"

fun lastRead :: "string option \<Rightarrow> event list \<Rightarrow> string option" where
  "lastRead prev [] = prev"
| "lastRead prev (GetFile s h # es) = lastRead h es"
| "lastRead prev (e # es) = lastRead prev es"

text \<open>
  What follows a write that was rejected with 409. \<open>afterRetry k m es\<close>: the trace goes
  on with the toast ``retry \<open>k\<close> of \<open>m\<close>'', a delay of 1000 milliseconds and a read.
  \<open>afterExhausted es\<close>: the trace goes on with the 409 logged by the outer \<open>catch\<close>.
\<close>

fun afterRetry :: "int \<Rightarrow> int \<Rightarrow> event list \<Rightarrow> bool" where
  "afterRetry k m (Toast t # Delay d # e # es) = (t = ConflictRetrying k m \<and> d = 1000 \<and> isRead e)"
| "afterRetry k m es = False"

fun afterExhausted :: "event list \<Rightarrow> bool" where
  "afterExhausted (ConsoleError err # es) = (err = HttpError 409)"
| "afterExhausted es = False"

text \<open>
  \<open>conflictsHandled m rc es\<close>, where \<open>m\<close> is the retry count of the configuration and
  \<open>rc\<close> the number of conflicts of the running commit so far: every write in the trace
  that was rejected with 409 is followed by the retry toast with the new count, the delay
  of 1000 milliseconds and a read when the new count is below \<open>m\<close>, and by the logged
  409 otherwise. The commit that an adjustment spin starts counts from 0 again.
\<close>

fun conflictsHandled :: "int \<Rightarrow> int \<Rightarrow> event list \<Rightarrow> bool" where
  "conflictsHandled m rc [] = True"
| "conflictsHandled m rc (PutFile s h content (Some err) # es) =
     (if status err = Some 409
      then (if rc + 1 < m
            then afterRetry (rc + 1) m es \<and> conflictsHandled m (rc + 1) es
            else afterExhausted es \<and> conflictsHandled m rc es)
      else conflictsHandled m rc es)"
| "conflictsHandled m rc (Toast AdjustedDueToConflict # es) = conflictsHandled m 0 es"
| "conflictsHandled m rc (e # es) = conflictsHandled m rc es"

text \<open>
  \<open>endsInFallback content err es\<close>: the trace \<open>es\<close> is the outer \<open>catch\<close> falling back at
  once: the logged error, the notice that the GitHub write failed and the write of the
  same content to the local store, with no further step of the loop after them.
  \<open>failuresEnd bad es\<close>: every write to GitHub in the trace that failed with an error of
  the kind \<open>bad\<close> is followed in this way.
\<close>

fun endsInFallback :: "assignments \<Rightarrow> jsError \<Rightarrow> event list \<Rightarrow> bool" where
  "endsInFallback content err (ConsoleError err' # Toast t # FallbackPut content' # es) =
     (err' = err \<and> t = GitHubWriteFailed \<and> content' = content \<and> filter isLoopStep es = [])"
| "endsInFallback content err es = False"

fun failuresEnd :: "(jsError \<Rightarrow> bool) \<Rightarrow> event list \<Rightarrow> bool" where
  "failuresEnd bad [] = True"
| "failuresEnd bad (PutFile s h content (Some err) # es) =
     (if s = GitHub \<and> bad err then endsInFallback content err es else failuresEnd bad es)"
| "failuresEnd bad (e # es) = failuresEnd bad es"

text \<open>
  A write fails transiently when the request is rejected by the network, or answered
  with a status that is not a success, not 409 and not a credential error (401, 403).
  A write fails hard when its error is not a 409.
\<close>

fun transient :: "jsError \<Rightarrow> bool" where
  "transient NetworkError = True"
| "transient (HttpError s) = (\<not> responseOk s \<and> s \<noteq> 409 \<and> s \<noteq> 401 \<and> s \<noteq> 403)"
| "transient err = False"

definition hard :: "jsError \<Rightarrow> bool" where
  "hard err = (status err \<noteq> Some 409)"




text \<open>
  Properties of a trace and of a result that the proofs carry through the passes.
  \<open>traceOk\<close>: the properties of backoff, versions and conflicts above, a trace that does
  not end in a delay, and a run that entered the loop starts with a read.
  \<open>keptEntry\<close>: the trace holds a call of \<open>addAssignment\<close> for the spinner, directly
  followed by a write of the final ledger to GitHub that was rejected with 409 and by
  the logged 409, with no step of the loop after them; and the final ledger maps the
  spinner to the recipient of that call, which is in the assigned set, unless the
  spinner is \<^verbatim>\<open>__proto__\<close>. \<open>fellBack\<close>: a fallback leaves the local store active, holding
  the final ledger, and ends the trace with the logged error, the notice, the local write
  and the result. \<open>readsWork\<close>: every read from GitHub returns.
\<close>

definition traceOk :: "int \<Rightarrow> int \<Rightarrow> event list \<Rightarrow> bool" where
  "traceOk m rc es =
     ((\<forall>l. writesFresh l es) \<and> backoffOk es \<and> conflictsHandled m rc es
      \<and> failuresEnd hard es
      \<and> es \<noteq> [] \<and> (\<forall>d. last es \<noteq> Delay d)
      \<and> (rc < m \<longrightarrow> startsWithRead es))"

definition keptEntry :: "string \<Rightarrow> result \<Rightarrow> bool" where
  "keptEntry sp res =
     (\<exists>pre post h r.
        eventsOf res = pre @ [Assigned sp r,
                             PutFile GitHub h (assignments (state (finalOf res)))
                               (Some (HttpError 409)),
                             ConsoleError (HttpError 409)] @ post
        \<and> filter isLoopStep post = []
        \<and> (sp \<noteq> ''__proto__'' \<longrightarrow>
             map_of (assignments (state (finalOf res))) sp = Some r
             \<and> r \<in> assignedRecipients (state (finalOf res))))"

definition fellBack :: "result \<Rightarrow> bool" where
  "fellBack res =
     (\<forall>r. outcomeOf res = FallenBack r \<longrightarrow>
        store (finalOf res) = Local
        \<and> localItem (finalOf res) = Some (Json (Some (assignments (state (finalOf res)))))
        \<and> (\<exists>pre err. eventsOf res =
              pre @ [ConsoleError err, Toast GitHubWriteFailed,
                     FallbackPut (assignments (state (finalOf res))), ShowResult r]))"

definition readsWork :: "env \<Rightarrow> bool" where
  "readsWork env = (\<forall>i. \<exists>d. githubGetFile (getResp (env i)) = Inr d)"

text \<open>
  \<open>neverSelf x res\<close>: in the run \<open>res\<close> the recipient of a commit or of a fallback is
  never \<open>x\<close>, the result modal never shows \<open>x\<close>, and no call of \<open>addAssignment\<close> has the
  recipient \<open>x\<close>.
  \<open>putsFailHard\<close>: every write to GitHub fails with an error other than 409.
  \<open>hardPutEnds\<close>: a write to GitHub that failed hard carried the final ledger, and the run
  fell back with the recipient of a call of \<open>addAssignment\<close> for the spinner.
  \<open>putAnswered\<close>: the error recorded with a write to GitHub is the answer of the
  environment at some pass.
\<close>

definition neverSelf :: "string \<Rightarrow> result \<Rightarrow> bool" where
  "neverSelf x res =
     ((\<forall>r. outcomeOf res = Committed r \<or> outcomeOf res = FallenBack r \<longrightarrow> r \<noteq> x)
      \<and> (\<forall>r. ShowResult r \<in> set (eventsOf res) \<longrightarrow> r \<noteq> x)
      \<and> (\<forall>sp r. Assigned sp r \<in> set (eventsOf res) \<longrightarrow> r \<noteq> x))"

definition putsFailHard :: "env \<Rightarrow> bool" where
  "putsFailHard env = (\<forall>i. \<exists>err. githubPutFile (putResp (env i)) = Inl err \<and> hard err)"

definition hardPutEnds :: "string \<Rightarrow> result \<Rightarrow> bool" where
  "hardPutEnds sp res =
     (\<forall>h m err. PutFile GitHub h m (Some err) \<in> set (eventsOf res) \<and> hard err \<longrightarrow>
        m = assignments (state (finalOf res))
        \<and> (\<exists>r. outcomeOf res = FallenBack r \<and> Assigned sp r \<in> set (eventsOf res)))"

definition putAnswered :: "env \<Rightarrow> result \<Rightarrow> bool" where
  "putAnswered env res =
     (\<forall>h m x. PutFile GitHub h m x \<in> set (eventsOf res) \<longrightarrow>
        (\<exists>i. githubPutFile (putResp (env i)) = (case x of None \<Rightarrow> Inr () | Some err \<Rightarrow> Inl err)))"

section \<open>Example inputs\<close>

text \<open>
  A client with four participants, the default retry count of \<^verbatim>\<open>config.js\<close>, the GitHub
  store active and a given ledger. An environment in which every read and every write
  gets the given answer, the local store works, the random number is 0 and the identity
  select holds the given value at every pass; in particular one whose reads return the
  given assignments under the given sha. An environment whose first write is rejected
  by the network and whose later writes would be accepted. An environment whose first
  write is rejected with 409 and whose later writes are answered with 503.
\<close>

definition exampleClient :: "assignments \<Rightarrow> Controller" where
  "exampleClient a =
     \<lparr>state = \<lparr>participants = [''A'', ''B'', ''C'', ''D''], assignments = a,
               assignedRecipients = set (objectValues a)\<rparr>,
      store = GitHub, isLoading = False, wheelSpinning = False,
      maxCommitRetries = Some 3, localItem = None\<rparr>"

definition exampleEnv :: "getResponse \<Rightarrow> putResponse \<Rightarrow> string \<Rightarrow> env" where
  "exampleEnv g p select =
     (\<lambda>i. \<lparr>getResp = g, putResp = p, localPutOk = True, random = 0, selectValue = select\<rparr>)"

definition exampleRemote :: "string \<Rightarrow> assignments \<Rightarrow> string \<Rightarrow> putResponse \<Rightarrow> env" where
  "exampleRemote select a sha p = exampleEnv (GetResponse 200 (Json (Some a)) (Some sha)) p select"

definition exampleFlaky :: env where
  "exampleFlaky =
     (\<lambda>i. \<lparr>getResp = GetResponse 200 (Json (Some [])) (Some ''s0''),
            putResp = (if i = 0 then PutNetworkFailure else PutResponse 200),
            localPutOk = True, random = 0, selectValue = ''A''\<rparr>)"

definition exampleLate :: env where
  "exampleLate =
     (\<lambda>i. \<lparr>getResp = GetResponse 200 (Json (Some [])) (Some ''s0''),
            putResp = (if i = 0 then PutResponse 409 else PutResponse 503),
            localPutOk = True, random = 0, selectValue = ''A''\<rparr>)"

text \<open>The equations that evaluate a run on a concrete input.\<close>

named_theorems run_defs

declare handleSpin_def [run_defs] commitAssignment_def [run_defs] commitLoop.simps [run_defs]
  readState_def [run_defs] revalidate_def [run_defs] tryCommit_def [run_defs]
  commitError_def [run_defs] afterAdjustment_def [run_defs] withEvents_def [run_defs]
  wheelAccepts_def [run_defs] maxRetriesOf_def [run_defs] randomChoice_def [run_defs]
  getEligibleRecipients_def [run_defs] updateAssignedRecipients_def [run_defs]
  addAssignment_def [run_defs] mergeAssignments_def [run_defs] mergeKey_def [run_defs]
  propertyRead_def [run_defs] propertyWrite_def [run_defs] keyBefore_def [run_defs]
  arrayIndex_def [run_defs] isDigit_def [run_defs] decimalValue_def [run_defs]
  objectPrototypeNames_def [run_defs] given_def [run_defs]
  objectKeys_def [run_defs] objectValues_def [run_defs] responseOk_def [run_defs]
  exampleClient_def [run_defs] exampleEnv_def [run_defs] exampleRemote_def [run_defs]
  exampleFlaky_def [run_defs] exampleLate_def [run_defs] Let_def [run_defs]
  finalOf_def [run_defs] outcomeOf_def [run_defs] eventsOf_def [run_defs]

section \<open>Properties of property reads and writes\<close>

lemma own_key: "map_of obj key = Some v \<Longrightarrow> key \<in> fst ` set obj"
  by (metis map_of_eq_None_iff option.distinct(1))

lemma map_of_replaceValue_at:
  "key \<in> fst ` set obj \<Longrightarrow>
     map_of (replaceValue key v obj) x = (if x = key then Some v else map_of obj x)"
proof (induction obj)
  case Nil
  then show ?case by simp
next
  case (Cons p ps)
  show ?case
  proof (cases "fst p = key")
    case True
    then show ?thesis by auto
  next
    case False
    with Cons.prems have "key \<in> fst ` set ps" by auto
    from Cons.IH [OF this] False show ?thesis by auto
  qed
qed

lemma map_of_replaceValue:
  "key \<in> fst ` set obj \<Longrightarrow> map_of (replaceValue key v obj) = (map_of obj)(key \<mapsto> v)"
  by (rule ext) (simp add: map_of_replaceValue_at)

lemma map_of_insertKey:
  "key \<notin> fst ` set obj \<Longrightarrow> map_of (insertKey key v obj) = (map_of obj)(key \<mapsto> v)"
  by (induction obj) (auto simp: fun_eq_iff)

lemma set_insertKey: "set (insertKey key v obj) = insert (key, v) (set obj)"
  by (induction obj) auto

lemma keys_replaceValue: "fst ` set (replaceValue key v obj) = fst ` set obj"
  by (induction obj) auto

lemma replaceValue_triv: "map_of obj key = Some v \<Longrightarrow> replaceValue key v obj = obj"
  by (induction obj) (auto split: if_splits)


lemma map_of_propertyWrite:
  "map_of (propertyWrite key v obj) =
     (if key \<notin> fst ` set obj \<and> key = ''__proto__'' then map_of obj else (map_of obj)(key \<mapsto> v))"
  by (auto simp: propertyWrite_def objectKeys_def map_of_replaceValue map_of_insertKey)

lemma keys_propertyWrite: "fst ` set obj \<subseteq> fst ` set (propertyWrite key v obj)"
  by (auto simp: propertyWrite_def keys_replaceValue set_insertKey)

lemma propertyWrite_triv: "map_of obj key = Some v \<Longrightarrow> propertyWrite key v obj = obj"
proof -
  assume m: "map_of obj key = Some v"
  then have "(key, v) \<in> set obj" by (rule map_of_SomeD)
  then have "key \<in> set (objectKeys obj)" by (force simp: objectKeys_def)
  with m show ?thesis by (simp add: propertyWrite_def replaceValue_triv)
qed


lemma propertyRead_map_of:
  "map_of a k = map_of b k \<Longrightarrow> propertyRead a k = propertyRead b k"
  by (simp add: propertyRead_def)

lemma falsy_read:
  "\<not> truthy (propertyRead a k) \<Longrightarrow>
     (map_of a k = None \<and> k \<noteq> ''__proto__'') \<or> map_of a k = Some []"
  by (auto simp: propertyRead_def objectPrototypeNames_def split: option.splits if_splits)


section \<open>Properties of the merge\<close>

lemma map_of_mergeKey:
  "map_of (mergeKey r a k) x =
     (if x = k \<and> \<not> truthy (propertyRead a k) \<and> map_of r k \<noteq> None
      then map_of r k else map_of a x)"
proof (cases "\<not> truthy (propertyRead a k)")
  case True
  from falsy_read [OF True] have "\<not> (k \<notin> fst ` set a \<and> k = ''__proto__'')"
    by (auto dest: own_key)
  with True show ?thesis
    by (auto simp: mergeKey_def map_of_propertyWrite split: option.splits)
next
  case False
  then show ?thesis by (simp add: mergeKey_def)
qed

lemma read_mergeKey_other:
  "truthy (propertyRead a x) \<Longrightarrow> propertyRead (mergeKey r a k) x = propertyRead a x"
  by (rule propertyRead_map_of) (auto simp: map_of_mergeKey)

lemma truthy_fold_keeps:
  "truthy (propertyRead a x) \<Longrightarrow>
     map_of (foldl (mergeKey r) a ks) x = map_of a x
     \<and> propertyRead (foldl (mergeKey r) a ks) x = propertyRead a x"
proof (induction ks arbitrary: a)
  case Nil
  then show ?case by simp
next
  case (Cons k ks)
  have m: "map_of (mergeKey r a k) x = map_of a x"
    using Cons.prems by (auto simp: map_of_mergeKey)
  have p: "propertyRead (mergeKey r a k) x = propertyRead a x"
    using Cons.prems by (rule read_mergeKey_other)
  with Cons.prems have "truthy (propertyRead (mergeKey r a k) x)" by simp
  from Cons.IH [OF this] m p show ?case by simp
qed

lemma outside_fold_keeps:
  "x \<notin> set ks \<Longrightarrow> map_of (foldl (mergeKey r) a ks) x = map_of a x"
  by (induction ks arbitrary: a) (auto simp: map_of_mergeKey)

lemma dom_mergeKey: "fst ` set a \<subseteq> fst ` set (mergeKey r a k)"
  using keys_propertyWrite [of a k]
  by (auto simp: mergeKey_def split: option.splits)

lemma dom_fold_grows: "fst ` set a \<subseteq> fst ` set (foldl (mergeKey r) a ks)"
proof (induction ks arbitrary: a)
  case Nil
  then show ?case by simp
next
  case (Cons k ks)
  have "fst ` set a \<subseteq> fst ` set (mergeKey r a k)" by (rule dom_mergeKey)
  also have "\<dots> \<subseteq> fst ` set (foldl (mergeKey r) (mergeKey r a k) ks)" by (rule Cons.IH)
  finally show ?case by simp
qed

lemma settled_mergeKey_same: "k \<in> set (objectKeys r) \<Longrightarrow> settled r (mergeKey r a k) k"
proof -
  assume "k \<in> set (objectKeys r)"
  then have "map_of r k \<noteq> None"
    by (simp add: objectKeys_def map_of_eq_None_iff)
  then show ?thesis
    by (cases "truthy (propertyRead a k)")
       (auto simp: settled_def map_of_mergeKey read_mergeKey_other)
qed

lemma settled_mergeKey_other: "settled r a k \<Longrightarrow> settled r (mergeKey r a k') k"
  by (cases "truthy (propertyRead a k)")
     (auto simp: settled_def map_of_mergeKey read_mergeKey_other)

lemma settled_fold: "settled r a k \<Longrightarrow> settled r (foldl (mergeKey r) a ks) k"
  by (induction ks arbitrary: a) (auto intro: settled_mergeKey_other)

lemma settled_after_fold:
  "k \<in> set ks \<Longrightarrow> set ks \<subseteq> set (objectKeys r) \<Longrightarrow> settled r (foldl (mergeKey r) a ks) k"
proof (induction ks arbitrary: a)
  case Nil
  then show ?case by simp
next
  case (Cons k' ks)
  show ?case
  proof (cases "k = k'")
    case True
    have "settled r (mergeKey r a k') k'"
      using Cons.prems(2) by (intro settled_mergeKey_same) simp
    then show ?thesis using True by (simp add: settled_fold)
  next
    case False
    then show ?thesis using Cons by simp
  qed
qed

lemma mergeKey_settled_id: "settled r a k \<Longrightarrow> mergeKey r a k = a"
  by (auto simp: settled_def mergeKey_def propertyWrite_triv split: option.splits)

lemma fold_settled_id:
  "(\<And>k. k \<in> set ks \<Longrightarrow> settled r a k) \<Longrightarrow> foldl (mergeKey r) a ks = a"
  by (induction ks) (auto simp: mergeKey_settled_id)

lemma merge_fold_idem:
  "foldl (mergeKey r) (foldl (mergeKey r) a (objectKeys r)) (objectKeys r)
     = foldl (mergeKey r) a (objectKeys r)"
  by (rule fold_settled_id) (simp add: settled_after_fold)

text \<open>
  C9. Merge idempotence: applying \<open>mergeAssignments\<close> with the same remote mapping twice
  in succession gives the same state (participants, assignments mapping and derived
  assigned-recipient set) as applying it once. This holds for every local state and every
  remote mapping.
\<close>

theorem mergeAssignments_idempotent:
  "mergeAssignments r (mergeAssignments r st) = mergeAssignments r st"
  by (simp add: mergeAssignments_def updateAssignedRecipients_def merge_fold_idem)

text \<open>
  C10. The merge does not preserve uniqueness of recipients: the local ledger
  \<open>{A: B}\<close> and the remote mapping \<open>{X: B}\<close> each give every recipient to at most one
  spinner, and the merged ledger \<open>{A: B, X: B}\<close> gives \<open>B\<close> to both \<open>A\<close> and \<open>X\<close>.
\<close>

theorem mergeAssignments_breaks_uniqueness:
  "uniqueRecipients [(''A'', ''B'')] \<and> uniqueRecipients [(''X'', ''B'')]
   \<and> assignments (mergeAssignments [(''X'', ''B'')]
        (newState\<lparr>assignments := [(''A'', ''B'')]\<rparr>)) = [(''A'', ''B''), (''X'', ''B'')]
   \<and> \<not> uniqueRecipients (assignments (mergeAssignments [(''X'', ''B'')]
        (newState\<lparr>assignments := [(''A'', ''B'')]\<rparr>)))
   \<and> (\<exists>st r. uniqueRecipients (assignments st) \<and> uniqueRecipients r
        \<and> \<not> uniqueRecipients (assignments (mergeAssignments r st)))"
proof -
  let ?st = "newState\<lparr>assignments := [(''A'', ''B'')]\<rparr>"
  let ?r = "[(''X'', ''B'')]"
  have m: "assignments (mergeAssignments ?r ?st) = [(''A'', ''B''), (''X'', ''B'')]"
    by (simp add: mergeAssignments_def updateAssignedRecipients_def newState_def
        objectKeys_def mergeKey_def propertyRead_def propertyWrite_def
        objectPrototypeNames_def keyBefore_def arrayIndex_def isDigit_def)
  have u1: "uniqueRecipients (assignments ?st)"
    by (simp add: uniqueRecipients_def objectValues_def)
  have u2: "uniqueRecipients ?r"
    by (simp add: uniqueRecipients_def objectValues_def)
  have u3: "\<not> uniqueRecipients (assignments (mergeAssignments ?r ?st))"
    by (simp add: m uniqueRecipients_def objectValues_def)
  from u1 u2 u3 have "\<exists>st r. uniqueRecipients (assignments st) \<and> uniqueRecipients r
        \<and> \<not> uniqueRecipients (assignments (mergeAssignments r st))"
    by blast
  with m u1 u2 u3 show ?thesis by simp
qed

section \<open>Properties of one pass of the commit loop\<close>

subsection \<open>Results\<close>

lemma parts_simps [simp]:
  "finalOf (c, out, evs) = c" "outcomeOf (c, out, evs) = out" "eventsOf (c, out, evs) = evs"
  by (simp_all add: finalOf_def outcomeOf_def eventsOf_def)

lemma withEvents_parts [simp]:
  "finalOf (withEvents pre res) = finalOf res"
  "outcomeOf (withEvents pre res) = outcomeOf res"
  "eventsOf (withEvents pre res) = pre @ eventsOf res"
  by (simp_all add: withEvents_def finalOf_def outcomeOf_def eventsOf_def split: prod.splits)

lemma afterAdjustment_final:
  "finalOf (afterAdjustment res) =
     (case outcomeOf res of Uncaught err \<Rightarrow> (finalOf res)\<lparr>isLoading := False\<rparr> | _ \<Rightarrow> finalOf res)"
  by (simp add: afterAdjustment_def finalOf_def outcomeOf_def split: prod.splits outcome.splits)

lemma afterAdjustment_state [simp]: "state (finalOf (afterAdjustment res)) = state (finalOf res)"
  by (simp add: afterAdjustment_final split: outcome.splits)

lemma afterAdjustment_store [simp]: "store (finalOf (afterAdjustment res)) = store (finalOf res)"
  by (simp add: afterAdjustment_final split: outcome.splits)

lemma afterAdjustment_localItem [simp]:
  "localItem (finalOf (afterAdjustment res)) = localItem (finalOf res)"
  by (simp add: afterAdjustment_final split: outcome.splits)

lemma afterAdjustment_outcome:
  "outcomeOf (afterAdjustment res) =
     (case outcomeOf res of Uncaught err \<Rightarrow> SaveFailed | out \<Rightarrow> out)"
  by (simp add: afterAdjustment_def outcomeOf_def split: prod.splits outcome.splits)

lemma afterAdjustment_events:
  "eventsOf (afterAdjustment res) =
     eventsOf res @ (case outcomeOf res of
                       Uncaught err \<Rightarrow> [ConsoleError err, Toast FailedToSaveTryAgain]
                     | _ \<Rightarrow> [])"
  by (simp add: afterAdjustment_def outcomeOf_def eventsOf_def split: prod.splits outcome.splits)

subsection \<open>The steps of a pass\<close>

lemma readState_cases:
  assumes "readState e c = (d, c1, ev1)"
  shows "(c1 = c \<and> ev1 = [GetFile (store c) (snd d)]
            \<and> (store c = GitHub \<longrightarrow> githubGetFile (getResp e) = Inr d))
         \<or> (store c = GitHub \<and> c1 = c\<lparr>store := Local\<rparr>
            \<and> (\<exists>err. githubGetFile (getResp e) = Inl err
                   \<and> ev1 = [GetFileFailed err, GetFile Local (snd d)]))"
  using assms by (auto simp: readState_def Let_def split: storeKind.splits sum.splits)

lemma revalidate_Abort:
  assumes "revalidate e adj content c r = Abort c2 ev2"
  shows "ev2 = [Toast NoEligiblePleaseRefresh] \<and> (\<exists>st. c2 = c\<lparr>state := st, isLoading := False\<rparr>)"
  using assms
  by (auto simp: revalidate_def Let_def split: fileContent.splits option.splits if_splits)

lemma randomChoice_Some: "randomChoice xs n = Some x \<Longrightarrow> x \<in> set xs"
  by (auto simp: randomChoice_def split: if_splits)

lemma revalidate_Adjust:
  assumes "revalidate e adj content c r = Adjust c2 r2 ev2"
  shows "\<not> adj \<and> ev2 = [Toast AdjustedDueToConflict]
         \<and> (\<exists>remote. content = Json (Some remote)
               \<and> c2 = c\<lparr>state := updateAssignedRecipients (mergeAssignments remote (state c))\<rparr>)
         \<and> r2 \<in> set (getEligibleRecipients (state c2) (Some (selectValue e)))"
  using assms
  by (auto simp: revalidate_def Let_def dest: randomChoice_Some
      split: fileContent.splits option.splits if_splits)

lemma revalidate_Proceed:
  assumes "revalidate e adj content c r = Proceed c2 r2 ev2"
  shows "(c2 = c \<and> r2 = r \<and> ev2 = [])
         \<or> (\<exists>remote. content = Json (Some remote)
               \<and> c2 = c\<lparr>state := updateAssignedRecipients (mergeAssignments remote (state c))\<rparr>
               \<and> r2 \<in> set (getEligibleRecipients (state c2) (Some (selectValue e)))
               \<and> ((r2 = r \<and> ev2 = []) \<or> (adj \<and> ev2 = [Toast AdjustingToAvailable])))"
  using assms
  by (auto simp: revalidate_def Let_def dest: randomChoice_Some
      split: fileContent.splits option.splits if_splits)

lemma tryCommit_Done:
  assumes "tryCommit e c sp r sha = Done c3 out ev3"
  shows "out = Committed r
         \<and> r \<notin> set (objectValues (assignments (state c)))
         \<and> state c3 = addAssignment sp r (updateAssignedRecipients (state c))
         \<and> ev3 = [Assigned sp r, PutFile (store c) sha (assignments (state c3)) None,
                  ShowResult r]
         \<and> store c3 = store c
         \<and> wheelSpinning c3 = wheelSpinning c
         \<and> (store c = GitHub \<longrightarrow> githubPutFile (putResp e) = Inr () \<and> localItem c3 = localItem c)
         \<and> (store c = Local \<longrightarrow> localPutOk e
               \<and> localItem c3 = Some (Json (Some (assignments (state c3)))))"
  using assms
  by (auto simp: tryCommit_def Let_def updateAssignedRecipients_def
      split: storeKind.splits sum.splits if_splits)

lemma tryCommit_Thrown:
  assumes "tryCommit e c sp r sha = Thrown c3 err ev3"
  shows "store c3 = store c
         \<and> wheelSpinning c3 = wheelSpinning c \<and> localItem c3 = localItem c
         \<and> maxCommitRetries c3 = maxCommitRetries c
         \<and> ((err = AlreadyAssigned r \<and> ev3 = [] \<and> state c3 = updateAssignedRecipients (state c))
            \<or> (r \<notin> set (objectValues (assignments (state c)))
               \<and> state c3 = addAssignment sp r (updateAssignedRecipients (state c))
               \<and> ev3 = [Assigned sp r, PutFile (store c) sha (assignments (state c3)) (Some err)]
               \<and> ((store c = GitHub \<and> githubPutFile (putResp e) = Inl err)
                  \<or> (store c = Local \<and> err = StorageError \<and> \<not> localPutOk e))))"
  using assms
  by (auto simp: tryCommit_def Let_def updateAssignedRecipients_def
      split: storeKind.splits sum.splits if_splits)

lemma commitError_cases:
  "commitError e c err r =
     (if store c = Local
      then (c\<lparr>isLoading := False\<rparr>, SaveFailed, [ConsoleError err, Toast FailedToSave])
      else if localPutOk e
      then (c\<lparr>store := Local, localItem := Some (Json (Some (assignments (state c)))),
               isLoading := False\<rparr>, FallenBack r,
            [ConsoleError err, Toast GitHubWriteFailed, FallbackPut (assignments (state c)),
             ShowResult r])
      else (c\<lparr>store := Local\<rparr>, Uncaught StorageError,
            [ConsoleError err, Toast GitHubWriteFailed, FallbackPut (assignments (state c))]))"
  by (simp add: commitError_def Let_def)

subsection \<open>Induction over the passes of a commit\<close>

text \<open>
  A property of every run of the loop follows from its seven ways through a pass: the
  loop condition fails; the re-validation returns; the adjustment spin does not start;
  the adjustment spin starts a new commit; the write is accepted; the write is rejected
  with 409 and retried; an error reaches the outer \<open>catch\<close>.
\<close>

lemma commitLoop_run [case_names exhausted abort stalled adjust success retry failure]:
  fixes P :: "nat \<Rightarrow> Controller \<Rightarrow> string \<Rightarrow> bool \<Rightarrow> int \<Rightarrow> result \<Rightarrow> bool"
  assumes exhausted: "\<And>i c r adj rc. \<not> rc < M \<Longrightarrow>
            P i c r adj rc (c\<lparr>isLoading := False\<rparr>, RetriesExhausted, [Toast FailedAfterRetries])"
    and abort: "\<And>i c r adj rc d c1 ev1 c2 ev2. rc < M \<Longrightarrow> readState (env i) c = (d, c1, ev1) \<Longrightarrow>
            revalidate (env i) adj (fst d) c1 r = Abort c2 ev2 \<Longrightarrow>
            P i c r adj rc (c2, NoEligible, ev1 @ ev2)"
    and stalled: "\<And>i c r adj rc d c1 ev1 c2 r2 ev2. rc < M \<Longrightarrow> readState (env i) c = (d, c1, ev1) \<Longrightarrow>
            revalidate (env i) adj (fst d) c1 r = Adjust c2 r2 ev2 \<Longrightarrow> \<not> wheelAccepts c2 r2 \<Longrightarrow>
            P i c r adj rc (c2, Stalled, ev1 @ ev2)"
    and adjust: "\<And>i c r adj rc d c1 ev1 c2 r2 ev2 res. rc < M \<Longrightarrow> readState (env i) c = (d, c1, ev1) \<Longrightarrow>
            revalidate (env i) adj (fst d) c1 r = Adjust c2 r2 ev2 \<Longrightarrow> wheelAccepts c2 r2 \<Longrightarrow>
            res = commitLoop env M (Suc i) c2 sp r2 True 0 \<Longrightarrow>
            P (Suc i) c2 r2 True 0 res \<Longrightarrow>
            P i c r adj rc (withEvents (ev1 @ SpinTo r2 # ev2) (afterAdjustment res))"
    and success: "\<And>i c r adj rc d c1 ev1 c2 r2 ev2 c3 out ev3. rc < M \<Longrightarrow> readState (env i) c = (d, c1, ev1) \<Longrightarrow>
            revalidate (env i) adj (fst d) c1 r = Proceed c2 r2 ev2 \<Longrightarrow>
            tryCommit (env i) c2 sp r2 (snd d) = Done c3 out ev3 \<Longrightarrow>
            P i c r adj rc (c3, out, ev1 @ ev2 @ ev3)"
    and retry: "\<And>i c r adj rc d c1 ev1 c2 r2 ev2 c3 err ev3 res. rc < M \<Longrightarrow> readState (env i) c = (d, c1, ev1) \<Longrightarrow>
            revalidate (env i) adj (fst d) c1 r = Proceed c2 r2 ev2 \<Longrightarrow>
            tryCommit (env i) c2 sp r2 (snd d) = Thrown c3 err ev3 \<Longrightarrow>
            status err = Some 409 \<Longrightarrow> rc + 1 < M \<Longrightarrow>
            res = commitLoop env M (Suc i) c3 sp r2 adj (rc + 1) \<Longrightarrow>
            P (Suc i) c3 r2 adj (rc + 1) res \<Longrightarrow>
            P i c r adj rc (withEvents (ev1 @ ev2 @ ev3 @ [Toast (ConflictRetrying (rc + 1) M), Delay 1000]) res)"
    and failure: "\<And>i c r adj rc d c1 ev1 c2 r2 ev2 c3 err ev3. rc < M \<Longrightarrow> readState (env i) c = (d, c1, ev1) \<Longrightarrow>
            revalidate (env i) adj (fst d) c1 r = Proceed c2 r2 ev2 \<Longrightarrow>
            tryCommit (env i) c2 sp r2 (snd d) = Thrown c3 err ev3 \<Longrightarrow>
            \<not> (status err = Some 409 \<and> rc + 1 < M) \<Longrightarrow>
            P i c r adj rc (withEvents (ev1 @ ev2 @ ev3) (commitError (env i) c3 err r2))"
  shows "P i c r adj rc (commitLoop env M i c sp r adj rc)"
  using assms
proof (induction env M i c sp r adj rc rule: commitLoop.induct)
  case (1 env M i c sp r adj rc)
  show ?case
  proof (cases "rc < M")
    case False
    then show ?thesis
      using "1.prems"(1) [of rc i c r adj] by (subst commitLoop.simps) simp
  next
    case lt: True
    obtain d c1 ev1 where rs: "readState (env i) c = (d, c1, ev1)"
      by (cases "readState (env i) c") auto
    show ?thesis
    proof (cases "revalidate (env i) adj (fst d) c1 r")
      case (Abort c2 ev2)
      then show ?thesis
        using "1.prems"(2) [OF lt rs Abort] lt rs by (subst commitLoop.simps) simp
    next
      case (Adjust c2 r2 ev2)
      show ?thesis
      proof (cases "wheelAccepts c2 r2")
        case False
        then show ?thesis
          using "1.prems"(3) [OF lt rs Adjust False] lt rs Adjust by (subst commitLoop.simps) simp
      next
        case True
        have "\<not> \<not> rc < M" using lt by simp
        from "1.IH"(1) [OF this rs [symmetric] refl Adjust True "1.prems"]
        have ih: "P (Suc i) c2 r2 True 0 (commitLoop env M (Suc i) c2 sp r2 True 0)" .
        show ?thesis
          using "1.prems"(4) [OF lt rs Adjust True refl ih] lt rs Adjust True
          by (subst commitLoop.simps) simp
      qed
    next
      case (Proceed c2 r2 ev2)
      show ?thesis
      proof (cases "tryCommit (env i) c2 sp r2 (snd d)")
        case (Done c3 out ev3)
        then show ?thesis
          using "1.prems"(5) [OF lt rs Proceed Done] lt rs Proceed by (subst commitLoop.simps) simp
      next
        case (Thrown c3 err ev3)
        show ?thesis
        proof (cases "status err = Some 409 \<and> rc + 1 < M")
          case False
          then show ?thesis
            using "1.prems"(7) [OF lt rs Proceed Thrown False] lt rs Proceed Thrown
            by (subst commitLoop.simps) auto
        next
          case True
          have "\<not> \<not> rc < M" using lt by simp
          from "1.IH"(2) [OF this rs [symmetric] refl Proceed Thrown True "1.prems"]
          have ih: "P (Suc i) c3 r2 adj (rc + 1) (commitLoop env M (Suc i) c3 sp r2 adj (rc + 1))" .
          show ?thesis
            using "1.prems"(6) [OF lt rs Proceed Thrown _ _ refl ih] True lt rs Proceed Thrown
            by (subst commitLoop.simps) simp
        qed
      qed
    qed
  qed
qed

subsection \<open>Facts about the events of a pass\<close>

lemma readState_state:
  "readState e c = (d, c1, ev1) \<Longrightarrow> state c1 = state c \<and> wheelSpinning c1 = wheelSpinning c
     \<and> maxCommitRetries c1 = maxCommitRetries c \<and> localItem c1 = localItem c"
  by (auto dest!: readState_cases)

lemma readState_events:
  "readState e c = (d, c1, ev1) \<Longrightarrow>
     (\<exists>s. ev1 = [GetFile s (snd d)]) \<or> (\<exists>err. ev1 = [GetFileFailed err, GetFile Local (snd d)])"
  by (auto dest!: readState_cases)

lemma revalidate_events:
  "revalidate e adj content c r = Proceed c2 r2 ev2 \<Longrightarrow> ev2 = [] \<or> ev2 = [Toast AdjustingToAvailable]"
  by (auto dest!: revalidate_Proceed)

lemma eligible_subset:
  "r \<in> set (getEligibleRecipients st ident) \<Longrightarrow> r \<in> set (participants st) \<and> r \<notin> assignedRecipients st"
  by (auto simp: getEligibleRecipients_def Let_def split: if_splits)

lemma afterAdjustment_tail:
  "\<exists>tail. eventsOf (afterAdjustment res) = eventsOf res @ tail
          \<and> (tail = [] \<or> (\<exists>err. outcomeOf res = Uncaught err
                \<and> tail = [ConsoleError err, Toast FailedToSaveTryAgain]))"
  by (auto simp: afterAdjustment_events split: outcome.splits)

section \<open>Backoff, versions and failures along a run\<close>

lemma status_409: "status err = Some 409 \<Longrightarrow> err = HttpError 409"
  by (cases err) auto

lemma writesFresh_append:
  "writesFresh l (xs @ ys) = (writesFresh l xs \<and> writesFresh (lastRead l xs) ys)"
  by (induction l xs rule: writesFresh.induct) auto

lemma backoffOk_delay: "backoffOk es \<Longrightarrow> Delay d \<in> set es \<Longrightarrow> d = 1000"
  by (induction es rule: backoffOk.induct) auto

lemma startsWithRead_append: "startsWithRead xs \<Longrightarrow> startsWithRead (xs @ ys)"
  by (cases xs) (auto simp: startsWithRead_def)

lemma startsWithRead_Cons: "startsWithRead es \<Longrightarrow> \<exists>e rest. es = e # rest \<and> isRead e"
  by (cases es) (auto simp: startsWithRead_def)

lemma backoffOk_append:
  "backoffOk xs \<Longrightarrow> xs = [] \<or> (\<forall>d. last xs \<noteq> Delay d) \<Longrightarrow> backoffOk (xs @ ys) = backoffOk ys"
proof (induction xs rule: backoffOk.induct)
  case 1
  then show ?case by simp
next
  case (2 d es)
  then have "es \<noteq> []" by (auto simp: startsWithRead_def)
  with 2 show ?case by (simp add: startsWithRead_append)
qed (auto split: if_splits)

lemma quiet_tail:
  assumes "filter isLoopStep ys = []"
  shows "backoffOk ys" and "writesFresh l ys" and "conflictsHandled m rc ys"
    and "failuresEnd bad ys"
  using assms
proof (induction ys arbitrary: l rc)
  case Nil
  {
    case 1 show ?case by simp
  next
    case 2 show ?case by simp
  next
    case 3 show ?case by simp
  next
    case 4 show ?case by simp
  }
next
  case (Cons e es)
  {
    case 1
    with Cons(1) show ?case by (cases e) (auto split: if_splits)
  next
    case 2
    with Cons(2) show ?case by (cases e) (auto split: if_splits)
  next
    case 3
    with Cons(3) show ?case
      by (cases e rule: isLoopStep.cases) (auto split: if_splits)
  next
    case 4
    with Cons(4) show ?case by (cases e) (auto split: if_splits)
  }
qed

lemma afterRetry_append: "afterRetry k m es \<Longrightarrow> afterRetry k m (es @ ys)"
  by (induction k m es rule: afterRetry.induct) auto

lemma afterExhausted_append: "afterExhausted es \<Longrightarrow> afterExhausted (es @ ys)"
  by (induction es rule: afterExhausted.induct) auto

lemma endsInFallback_append:
  "endsInFallback content err es \<Longrightarrow> filter isLoopStep ys = [] \<Longrightarrow>
     endsInFallback content err (es @ ys)"
  by (induction content err es rule: endsInFallback.induct) auto

lemma conflictsHandled_append:
  "conflictsHandled m rc xs \<Longrightarrow> filter isLoopStep ys = [] \<Longrightarrow> conflictsHandled m rc (xs @ ys)"
  by (induction m rc xs rule: conflictsHandled.induct)
     (auto simp: quiet_tail afterRetry_append afterExhausted_append split: if_splits)

lemma failuresEnd_append:
  "failuresEnd bad xs \<Longrightarrow> filter isLoopStep ys = [] \<Longrightarrow> failuresEnd bad (xs @ ys)"
  by (induction bad xs rule: failuresEnd.induct)
     (auto simp: quiet_tail endsInFallback_append split: if_splits)

lemma endsInFallback_quiet: "endsInFallback content err es \<Longrightarrow> failuresEnd bad es"
  by (induction content err es rule: endsInFallback.induct) (auto simp: quiet_tail)

lemma failuresEnd_mono:
  "failuresEnd bad es \<Longrightarrow> (\<And>err. bad' err \<Longrightarrow> bad err) \<Longrightarrow> failuresEnd bad' es"
proof (induction bad es rule: failuresEnd.induct)
  case (2 bad s h content err es)
  then show ?case
    by (cases "s = GitHub \<and> bad' err") (auto simp: endsInFallback_quiet split: if_splits)
qed auto

lemma transient_hard: "transient err \<Longrightarrow> hard err"
  by (cases err) (auto simp: hard_def)

lemma traceOk_tail:
  assumes "traceOk m rc es" and "filter isLoopStep ys = []"
  shows "traceOk m rc (es @ ys)"
proof -
  from assms(1) have ne: "es \<noteq> []" and nd: "\<forall>d. last es \<noteq> Delay d"
    by (auto simp: traceOk_def)
  from assms(1) ne nd have b: "backoffOk (es @ ys) = backoffOk ys"
    by (intro backoffOk_append) (auto simp: traceOk_def)
  have l: "\<forall>d. last (es @ ys) \<noteq> Delay d"
  proof (cases "ys = []")
    case True
    with nd show ?thesis by simp
  next
    case False
    then have "last ys \<in> set ys" by simp
    with assms(2) have "\<not> isLoopStep (last ys)"
      by (metis filter_empty_conv)
    with False show ?thesis by auto
  qed
  from assms ne b l show ?thesis
    by (auto simp: traceOk_def writesFresh_append quiet_tail conflictsHandled_append
        failuresEnd_append startsWithRead_append)
qed

lemma commitLoop_traceOk:
  "traceOk M rc (eventsOf (commitLoop env M i c sp r adj rc))"
proof (induction i c r adj rc rule: commitLoop_run [where M = M and env = env and sp = sp])
  case (exhausted i c r adj rc)
  then show ?case by (simp add: traceOk_def)
next
  case (abort i c r adj rc d c1 ev1 c2 ev2)
  from readState_events [OF abort(2)] revalidate_Abort [OF abort(3)]
  show ?case by (auto simp: traceOk_def startsWithRead_def)
next
  case (stalled i c r adj rc d c1 ev1 c2 r2 ev2)
  from readState_events [OF stalled(2)] revalidate_Adjust [OF stalled(3)]
  show ?case by (auto simp: traceOk_def startsWithRead_def)
next
  case (adjust i c r adj rc d c1 ev1 c2 r2 ev2 res)
  from afterAdjustment_tail [of res] obtain tail
    where tail: "eventsOf (afterAdjustment res) = eventsOf res @ tail"
      and q: "filter isLoopStep tail = []"
    by auto
  from adjust(6) q have inner: "traceOk M 0 (eventsOf res @ tail)"
    by (rule traceOk_tail)
  from readState_events [OF adjust(2)] revalidate_Adjust [OF adjust(3)] inner
  show ?case
    by (auto simp: traceOk_def startsWithRead_def tail)
next
  case (success i c r adj rc d c1 ev1 c2 r2 ev2 c3 out ev3)
  from readState_events [OF success(2)] revalidate_events [OF success(3)]
    tryCommit_Done [OF success(4)]
  show ?case by (auto simp: traceOk_def startsWithRead_def)
next
  case (retry i c r adj rc d c1 ev1 c2 r2 ev2 c3 err ev3 res)
  from tryCommit_Thrown [OF retry(4)] retry(5)
  have ev3: "\<exists>s m. ev3 = [Assigned sp r2, PutFile s (snd d) m (Some err)]" by auto
  from retry(6,8) have ok: "traceOk M (rc + 1) (eventsOf res)" "startsWithRead (eventsOf res)"
    by (simp_all add: traceOk_def)
  from startsWithRead_Cons [OF ok(2)] obtain e rest
    where e: "eventsOf res = e # rest" "isRead e" by auto
  have nh: "\<not> hard err" using retry(5) by (simp add: hard_def)
  from readState_events [OF retry(2)] revalidate_events [OF retry(3)] ev3 ok(1) retry(5,6) nh
  show ?case
    by (auto simp: traceOk_def startsWithRead_def e)
next
  case (failure i c r adj rc d c1 ev1 c2 r2 ev2 c3 err ev3)
  from tryCommit_Thrown [OF failure(4)]
  consider (val) "ev3 = []"
    | (loc) "store c3 = Local" "err = StorageError"
        "\<exists>m. ev3 = [Assigned sp r2, PutFile Local (snd d) m (Some err)]"
    | (gh) "store c3 = GitHub"
        "ev3 = [Assigned sp r2, PutFile GitHub (snd d) (assignments (state c3)) (Some err)]"
    by auto
  then show ?case
  proof cases
    case val
    with readState_events [OF failure(2)] revalidate_events [OF failure(3)]
    show ?thesis
      by (auto simp: traceOk_def startsWithRead_def commitError_cases)
  next
    case loc
    with readState_events [OF failure(2)] revalidate_events [OF failure(3)]
    show ?thesis
      by (auto simp: traceOk_def startsWithRead_def commitError_cases)
  next
    case gh
    have ex: "status err = Some 409 \<Longrightarrow> err = HttpError 409 \<and> \<not> rc + 1 < M"
      using failure(5) by (auto dest: status_409)
    from gh ex readState_events [OF failure(2)] revalidate_events [OF failure(3)]
    show ?thesis
      by (auto simp: traceOk_def startsWithRead_def commitError_cases hard_def)
  qed
qed

section \<open>Falling back to the local store\<close>

lemma no_events_simps:
  "readState e c = (d, c1, ev1) \<Longrightarrow> filter isGitHubPut ev1 = [] \<and> filter isRetry ev1 = []
      \<and> (\<forall>err. ConsoleError err \<notin> set ev1) \<and> (\<forall>s h m x. PutFile s h m x \<notin> set ev1)
      \<and> (\<forall>sp r. Assigned sp r \<notin> set ev1)"
  by (auto dest!: readState_events)

lemma fellBack_prefix:
  "fellBack res \<Longrightarrow> fellBack (withEvents pre res)"
  unfolding fellBack_def
  by (metis append.assoc withEvents_parts(1) withEvents_parts(2) withEvents_parts(3))

lemma fellBack_afterAdjustment:
  "fellBack res \<Longrightarrow> fellBack (afterAdjustment res)"
  unfolding fellBack_def
  by (auto simp: afterAdjustment_outcome afterAdjustment_events split: outcome.splits)

lemma fellBack_commitError: "fellBack (commitError e c err r)"
  by (simp add: fellBack_def commitError_cases)

lemma commitLoop_fellBack: "fellBack (commitLoop env M i c sp r adj rc)"
proof (induction i c r adj rc rule: commitLoop_run [where M = M and env = env and sp = sp])
  case (success i c r adj rc d c1 ev1 c2 r2 ev2 c3 out ev3)
  from tryCommit_Done [OF success(4)] show ?case by (simp add: fellBack_def)
qed (simp_all add: fellBack_prefix fellBack_afterAdjustment fellBack_commitError,
     simp_all add: fellBack_def)

lemma commitLoop_putAnswered: "putAnswered env (commitLoop env M i c sp r adj rc)"
proof (induction i c r adj rc rule: commitLoop_run [where M = M and env = env and sp = sp])
  case (exhausted i c r adj rc)
  then show ?case by (simp add: putAnswered_def)
next
  case (abort i c r adj rc d c1 ev1 c2 ev2)
  from no_events_simps [OF abort(2)] revalidate_Abort [OF abort(3)]
  show ?case by (auto simp: putAnswered_def)
next
  case (stalled i c r adj rc d c1 ev1 c2 r2 ev2)
  from no_events_simps [OF stalled(2)] revalidate_Adjust [OF stalled(3)]
  show ?case by (auto simp: putAnswered_def)
next
  case (adjust i c r adj rc d c1 ev1 c2 r2 ev2 res)
  from no_events_simps [OF adjust(2)] revalidate_Adjust [OF adjust(3)] adjust(6)
  show ?case
    by (auto simp: putAnswered_def afterAdjustment_events split: outcome.splits)
next
  case (success i c r adj rc d c1 ev1 c2 r2 ev2 c3 out ev3)
  from no_events_simps [OF success(2)] revalidate_events [OF success(3)]
    tryCommit_Done [OF success(4)]
  show ?case by (auto simp: putAnswered_def intro!: exI [of _ i])
next
  case (retry i c r adj rc d c1 ev1 c2 r2 ev2 c3 err ev3 res)
  from no_events_simps [OF retry(2)] revalidate_events [OF retry(3)]
    tryCommit_Thrown [OF retry(4)] retry(8)
  show ?case by (auto simp: putAnswered_def intro!: exI [of _ i])
next
  case (failure i c r adj rc d c1 ev1 c2 r2 ev2 c3 err ev3)
  from no_events_simps [OF failure(2)] revalidate_events [OF failure(3)]
    tryCommit_Thrown [OF failure(4)]
  show ?case by (auto simp: putAnswered_def commitError_cases intro!: exI [of _ i])
qed

lemma hardPutEnds_prefix:
  assumes "hardPutEnds sp res"
    and "\<And>h m err. PutFile GitHub h m (Some err) \<in> set pre \<Longrightarrow> \<not> hard err"
  shows "hardPutEnds sp (withEvents pre res)"
  unfolding hardPutEnds_def
proof (intro allI impI)
  fix h m err
  assume a: "PutFile GitHub h m (Some err) \<in> set (eventsOf (withEvents pre res)) \<and> hard err"
  with assms(2) have "PutFile GitHub h m (Some err) \<in> set (eventsOf res)" by auto
  with assms(1) a have "m = assignments (state (finalOf res))"
    and "\<exists>r. outcomeOf res = FallenBack r \<and> Assigned sp r \<in> set (eventsOf res)"
    unfolding hardPutEnds_def by blast+
  then show "m = assignments (state (finalOf (withEvents pre res)))
        \<and> (\<exists>r. outcomeOf (withEvents pre res) = FallenBack r
             \<and> Assigned sp r \<in> set (eventsOf (withEvents pre res)))"
    by auto
qed

lemma hardPutEnds_afterAdjustment:
  assumes "hardPutEnds sp res"
  shows "hardPutEnds sp (afterAdjustment res)"
  unfolding hardPutEnds_def
proof (intro allI impI)
  fix h m err
  assume a: "PutFile GitHub h m (Some err) \<in> set (eventsOf (afterAdjustment res)) \<and> hard err"
  then have "PutFile GitHub h m (Some err) \<in> set (eventsOf res)"
    by (auto simp: afterAdjustment_events split: outcome.splits if_splits)
  with assms a have m: "m = assignments (state (finalOf res))"
    and "\<exists>r. outcomeOf res = FallenBack r \<and> Assigned sp r \<in> set (eventsOf res)"
    unfolding hardPutEnds_def by blast+
  then obtain r' where r': "outcomeOf res = FallenBack r'" "Assigned sp r' \<in> set (eventsOf res)"
    by blast
  from r' have "eventsOf (afterAdjustment res) = eventsOf res"
    and "outcomeOf (afterAdjustment res) = FallenBack r'"
    by (simp_all add: afterAdjustment_events afterAdjustment_outcome)
  with m r'
  show "m = assignments (state (finalOf (afterAdjustment res)))
        \<and> (\<exists>r. outcomeOf (afterAdjustment res) = FallenBack r
             \<and> Assigned sp r \<in> set (eventsOf (afterAdjustment res)))"
    by auto
qed

lemma commitLoop_hardPutEnds:
  assumes loc: "\<forall>i. localPutOk (env i)"
  shows "hardPutEnds sp (commitLoop env M i c sp r adj rc)"
proof (induction i c r adj rc rule: commitLoop_run [where M = M and env = env and sp = sp])
  case (exhausted i c r adj rc)
  then show ?case by (simp add: hardPutEnds_def)
next
  case (abort i c r adj rc d c1 ev1 c2 ev2)
  from no_events_simps [OF abort(2)] revalidate_Abort [OF abort(3)]
  show ?case by (auto simp: hardPutEnds_def)
next
  case (stalled i c r adj rc d c1 ev1 c2 r2 ev2)
  from no_events_simps [OF stalled(2)] revalidate_Adjust [OF stalled(3)]
  show ?case by (auto simp: hardPutEnds_def)
next
  case (adjust i c r adj rc d c1 ev1 c2 r2 ev2 res)
  from no_events_simps [OF adjust(2)] revalidate_Adjust [OF adjust(3)]
  have "\<And>h m err. PutFile GitHub h m (Some err) \<in> set (ev1 @ SpinTo r2 # ev2) \<Longrightarrow> \<not> hard err"
    by auto
  with hardPutEnds_afterAdjustment [OF adjust(6)]
  show ?case by (rule hardPutEnds_prefix)
next
  case (success i c r adj rc d c1 ev1 c2 r2 ev2 c3 out ev3)
  from no_events_simps [OF success(2)] revalidate_events [OF success(3)]
    tryCommit_Done [OF success(4)]
  show ?case by (auto simp: hardPutEnds_def)
next
  case (retry i c r adj rc d c1 ev1 c2 r2 ev2 c3 err ev3 res)
  have nh: "\<not> hard err" using retry(5) by (simp add: hard_def)
  from no_events_simps [OF retry(2)] revalidate_events [OF retry(3)]
    tryCommit_Thrown [OF retry(4)] nh
  have "\<And>h m e. PutFile GitHub h m (Some e)
      \<in> set (ev1 @ ev2 @ ev3 @ [Toast (ConflictRetrying (rc + 1) M), Delay 1000]) \<Longrightarrow> \<not> hard e"
    by auto
  with retry(8) show ?case by (rule hardPutEnds_prefix)
next
  case (failure i c r adj rc d c1 ev1 c2 r2 ev2 c3 err ev3)
  from tryCommit_Thrown [OF failure(4)]
  consider (val) "ev3 = []"
    | (loc) "\<exists>m. ev3 = [Assigned sp r2, PutFile Local (snd d) m (Some err)]"
    | (gh) "store c3 = GitHub"
        "ev3 = [Assigned sp r2, PutFile GitHub (snd d) (assignments (state c3)) (Some err)]"
    by auto
  then show ?case
  proof cases
    case val
    with no_events_simps [OF failure(2)] revalidate_events [OF failure(3)]
    show ?thesis by (auto simp: hardPutEnds_def commitError_cases)
  next
    case loc
    with no_events_simps [OF failure(2)] revalidate_events [OF failure(3)]
    show ?thesis by (auto simp: hardPutEnds_def commitError_cases)
  next
    case gh
    with no_events_simps [OF failure(2)] revalidate_events [OF failure(3)] assms
    show ?thesis by (auto simp: hardPutEnds_def commitError_cases)
  qed
qed

lemma commitLoop_one_write:
  assumes hard: "putsFailHard env"
  shows "filter isRetry (eventsOf (commitLoop env M i c sp r adj rc)) = []
         \<and> length (filter isGitHubPut (eventsOf (commitLoop env M i c sp r adj rc))) \<le> 1"
proof (induction i c r adj rc rule: commitLoop_run [where M = M and env = env and sp = sp])
  case (exhausted i c r adj rc)
  then show ?case by simp
next
  case (abort i c r adj rc d c1 ev1 c2 ev2)
  from no_events_simps [OF abort(2)] revalidate_Abort [OF abort(3)]
  show ?case by auto
next
  case (stalled i c r adj rc d c1 ev1 c2 r2 ev2)
  from no_events_simps [OF stalled(2)] revalidate_Adjust [OF stalled(3)]
  show ?case by auto
next
  case (adjust i c r adj rc d c1 ev1 c2 r2 ev2 res)
  from no_events_simps [OF adjust(2)] revalidate_Adjust [OF adjust(3)] adjust(6)
  show ?case
    by (auto simp: afterAdjustment_events split: outcome.splits)
next
  case (success i c r adj rc d c1 ev1 c2 r2 ev2 c3 out ev3)
  have "length (filter isGitHubPut ev3) \<le> 1" "filter isRetry ev3 = []"
    using tryCommit_Done [OF success(4)] by (cases "store c2"; simp)+
  with no_events_simps [OF success(2)] revalidate_events [OF success(3)]
  show ?case by auto
next
  case (retry i c r adj rc d c1 ev1 c2 r2 ev2 c3 err ev3 res)
  from hard obtain err' where "githubPutFile (putResp (env i)) = Inl err'" "hard err'"
    by (auto simp: putsFailHard_def)
  with tryCommit_Thrown [OF retry(4)] retry(5) have False by (auto simp: hard_def)
  then show ?case ..
next
  case (failure i c r adj rc d c1 ev1 c2 r2 ev2 c3 err ev3)
  have "length (filter isGitHubPut ev3) \<le> 1" "filter isRetry ev3 = []"
    using tryCommit_Thrown [OF failure(4)] by (cases "store c2"; auto)+
  with no_events_simps [OF failure(2)] revalidate_events [OF failure(3)]
  show ?case by (auto simp: commitError_cases)
qed

lemma commitLoop_ends_in_fallback:
  assumes hard: "putsFailHard env" and loc: "\<forall>i. localPutOk (env i)" and rd: "readsWork env"
  shows "store c = GitHub \<and> \<not> wheelSpinning c \<and> 0 \<le> rc \<and> rc < M \<longrightarrow>
           outcomeOf (commitLoop env M i c sp r adj rc) = NoEligible
           \<or> (\<exists>r'. outcomeOf (commitLoop env M i c sp r adj rc) = FallenBack r')"
proof (induction i c r adj rc rule: commitLoop_run [where M = M and env = env and sp = sp])
  case (exhausted i c r adj rc)
  then show ?case by simp
next
  case (abort i c r adj rc d c1 ev1 c2 ev2)
  then show ?case by simp
next
  case (stalled i c r adj rc d c1 ev1 c2 r2 ev2)
  show ?case
  proof
    assume h: "store c = GitHub \<and> \<not> wheelSpinning c \<and> 0 \<le> rc \<and> rc < M"
    from readState_state [OF stalled(2)] revalidate_Adjust [OF stalled(3)] h
    have "\<not> wheelSpinning c2" and "r2 \<in> set (participants (state c2))"
      by (auto dest: eligible_subset)
    with stalled(4) have False by (auto simp: wheelAccepts_def)
    then show "outcomeOf (c2, Stalled, ev1 @ ev2) = NoEligible
           \<or> (\<exists>r'. outcomeOf (c2, Stalled, ev1 @ ev2) = FallenBack r')" ..
  qed
next
  case (adjust i c r adj rc d c1 ev1 c2 r2 ev2 res)
  show ?case
  proof
    assume h: "store c = GitHub \<and> \<not> wheelSpinning c \<and> 0 \<le> rc \<and> rc < M"
    from rd have "\<exists>d'. githubGetFile (getResp (env i)) = Inr d'"
      unfolding readsWork_def by (rule spec)
    then obtain d' where "githubGetFile (getResp (env i)) = Inr d'"
      by (rule exE)
    with readState_cases [OF adjust(2)] h have c1: "c1 = c" by auto
    with revalidate_Adjust [OF adjust(3)] h
    have "store c2 = GitHub" "\<not> wheelSpinning c2" by auto
    with adjust(6) h
    have "outcomeOf res = NoEligible \<or> (\<exists>r'. outcomeOf res = FallenBack r')" by simp
    then show "outcomeOf (withEvents (ev1 @ SpinTo r2 # ev2) (afterAdjustment res)) = NoEligible
       \<or> (\<exists>r'. outcomeOf (withEvents (ev1 @ SpinTo r2 # ev2) (afterAdjustment res)) = FallenBack r')"
      by (auto simp: afterAdjustment_outcome)
  qed
next
  case (success i c r adj rc d c1 ev1 c2 r2 ev2 c3 out ev3)
  show ?case
  proof
    assume h: "store c = GitHub \<and> \<not> wheelSpinning c \<and> 0 \<le> rc \<and> rc < M"
    from rd have "\<exists>d'. githubGetFile (getResp (env i)) = Inr d'"
      unfolding readsWork_def by (rule spec)
    then obtain d' where "githubGetFile (getResp (env i)) = Inr d'"
      by (rule exE)
    with readState_cases [OF success(2)] h have c1: "c1 = c" by auto
    with revalidate_Proceed [OF success(3)] h have "store c2 = GitHub" by auto
    moreover from hard obtain err where "githubPutFile (putResp (env i)) = Inl err"
      by (auto simp: putsFailHard_def)
    ultimately have False using tryCommit_Done [OF success(4)] by auto
    then show "outcomeOf (c3, out, ev1 @ ev2 @ ev3) = NoEligible
       \<or> (\<exists>r'. outcomeOf (c3, out, ev1 @ ev2 @ ev3) = FallenBack r')" ..
  qed
next
  case (retry i c r adj rc d c1 ev1 c2 r2 ev2 c3 err ev3 res)
  from hard obtain err' where "githubPutFile (putResp (env i)) = Inl err'" "hard err'"
    by (auto simp: putsFailHard_def)
  with tryCommit_Thrown [OF retry(4)] retry(5) have False by (auto simp: hard_def)
  then show ?case ..
next
  case (failure i c r adj rc d c1 ev1 c2 r2 ev2 c3 err ev3)
  show ?case
  proof
    assume h: "store c = GitHub \<and> \<not> wheelSpinning c \<and> 0 \<le> rc \<and> rc < M"
    from rd have "\<exists>d'. githubGetFile (getResp (env i)) = Inr d'"
      unfolding readsWork_def by (rule spec)
    then obtain d' where "githubGetFile (getResp (env i)) = Inr d'"
      by (rule exE)
    with readState_cases [OF failure(2)] h have c1: "c1 = c" by auto
    with revalidate_Proceed [OF failure(3)] h have "store c2 = GitHub" by auto
    with tryCommit_Thrown [OF failure(4)] have "store c3 = GitHub" by simp
    with loc show "outcomeOf (withEvents (ev1 @ ev2 @ ev3) (commitError (env i) c3 err r2)) = NoEligible
       \<or> (\<exists>r'. outcomeOf (withEvents (ev1 @ ev2 @ ev3) (commitError (env i) c3 err r2)) = FallenBack r')"
      by (simp add: commitError_cases)
  qed
qed

section \<open>Conflicts that exhaust the retry count\<close>

lemma addAssignment_entry:
  assumes "sp \<noteq> ''__proto__''"
  shows "map_of (assignments (addAssignment sp r st)) sp = Some r"
    and "r \<in> assignedRecipients (addAssignment sp r st)"
proof -
  show m: "map_of (assignments (addAssignment sp r st)) sp = Some r"
    using assms by (simp add: addAssignment_def updateAssignedRecipients_def map_of_propertyWrite)
  from m have "(sp, r) \<in> set (assignments (addAssignment sp r st))" by (rule map_of_SomeD)
  then have "r \<in> snd ` set (assignments (addAssignment sp r st))" by force
  then show "r \<in> assignedRecipients (addAssignment sp r st)"
    by (simp add: addAssignment_def updateAssignedRecipients_def objectValues_def)
qed

lemma keptEntry_prefix:
  assumes "keptEntry sp res"
  shows "keptEntry sp (withEvents pre0 res)"
proof -
  from assms obtain pre post h r where
    ev: "eventsOf res = pre @ [Assigned sp r,
            PutFile GitHub h (assignments (state (finalOf res))) (Some (HttpError 409)),
            ConsoleError (HttpError 409)] @ post"
    and q: "filter isLoopStep post = []"
    and m: "sp \<noteq> ''__proto__'' \<longrightarrow> map_of (assignments (state (finalOf res))) sp = Some r
             \<and> r \<in> assignedRecipients (state (finalOf res))"
    unfolding keptEntry_def by blast
  from ev have "eventsOf (withEvents pre0 res) = (pre0 @ pre) @ [Assigned sp r,
            PutFile GitHub h (assignments (state (finalOf (withEvents pre0 res)))) (Some (HttpError 409)),
            ConsoleError (HttpError 409)] @ post"
    by simp
  with q m show ?thesis
    unfolding keptEntry_def by (intro exI [of _ "pre0 @ pre"] exI [of _ post] exI [of _ h] exI [of _ r]) simp
qed

lemma keptEntry_afterAdjustment:
  assumes "keptEntry sp res"
  shows "keptEntry sp (afterAdjustment res)"
proof -
  from assms obtain pre post h r where
    ev: "eventsOf res = pre @ [Assigned sp r,
            PutFile GitHub h (assignments (state (finalOf res))) (Some (HttpError 409)),
            ConsoleError (HttpError 409)] @ post"
    and q: "filter isLoopStep post = []"
    and m: "sp \<noteq> ''__proto__'' \<longrightarrow> map_of (assignments (state (finalOf res))) sp = Some r
             \<and> r \<in> assignedRecipients (state (finalOf res))"
    unfolding keptEntry_def by blast
  from afterAdjustment_tail [of res] obtain tail where
    t: "eventsOf (afterAdjustment res) = eventsOf res @ tail"
    and tq: "tail = [] \<or> (\<exists>err. outcomeOf res = Uncaught err
                \<and> tail = [ConsoleError err, Toast FailedToSaveTryAgain])"
    by blast
  from tq have tl: "filter isLoopStep tail = []" by auto
  from t ev have "eventsOf (afterAdjustment res) = pre @ [Assigned sp r,
            PutFile GitHub h (assignments (state (finalOf (afterAdjustment res)))) (Some (HttpError 409)),
            ConsoleError (HttpError 409)] @ (post @ tail)"
    by simp
  with q tl m show ?thesis
    unfolding keptEntry_def by (intro exI [of _ pre] exI [of _ "post @ tail"] exI [of _ h] exI [of _ r]) simp
qed

lemma commitLoop_conflict_exhausted:
  "(\<forall>e. outcomeOf (commitLoop env M i c sp r adj rc) = Uncaught e \<longrightarrow> e = StorageError)
   \<and> (ConsoleError (HttpError 409) \<in> set (eventsOf (commitLoop env M i c sp r adj rc))
        \<longrightarrow> keptEntry sp (commitLoop env M i c sp r adj rc))"
proof (induction i c r adj rc rule: commitLoop_run [where M = M and env = env and sp = sp])
  case (exhausted i c r adj rc)
  then show ?case by simp
next
  case (abort i c r adj rc d c1 ev1 c2 ev2)
  from no_events_simps [OF abort(2)] revalidate_Abort [OF abort(3)]
  show ?case by auto
next
  case (stalled i c r adj rc d c1 ev1 c2 r2 ev2)
  from no_events_simps [OF stalled(2)] revalidate_Adjust [OF stalled(3)]
  show ?case by auto
next
  case (adjust i c r adj rc d c1 ev1 c2 r2 ev2 res)
  from adjust(6) have u: "\<forall>e. outcomeOf res = Uncaught e \<longrightarrow> e = StorageError"
    and k: "ConsoleError (HttpError 409) \<in> set (eventsOf res) \<longrightarrow> keptEntry sp res"
    by blast+
  have 1: "\<forall>e. outcomeOf (withEvents (ev1 @ SpinTo r2 # ev2) (afterAdjustment res)) = Uncaught e
            \<longrightarrow> e = StorageError"
    by (auto simp: afterAdjustment_outcome split: outcome.splits)
  have 2: "keptEntry sp (withEvents (ev1 @ SpinTo r2 # ev2) (afterAdjustment res))"
    if a: "ConsoleError (HttpError 409)
            \<in> set (eventsOf (withEvents (ev1 @ SpinTo r2 # ev2) (afterAdjustment res)))"
  proof -
    from no_events_simps [OF adjust(2)] revalidate_Adjust [OF adjust(3)]
    have "ConsoleError (HttpError 409) \<notin> set (ev1 @ SpinTo r2 # ev2)" by auto
    with a have "ConsoleError (HttpError 409) \<in> set (eventsOf (afterAdjustment res))" by auto
    then have "ConsoleError (HttpError 409) \<in> set (eventsOf res)"
    proof (cases "outcomeOf res")
      case (Uncaught err)
      with u have "err = StorageError" by blast
      with Uncaught \<open>ConsoleError (HttpError 409) \<in> set (eventsOf (afterAdjustment res))\<close>
      show ?thesis by (simp add: afterAdjustment_events)
    qed (simp_all add: afterAdjustment_events)
    with k have "keptEntry sp res" by blast
    then have "keptEntry sp (afterAdjustment res)" by (rule keptEntry_afterAdjustment)
    then show ?thesis by (rule keptEntry_prefix)
  qed
  from 1 2 show ?case by blast
next
  case (success i c r adj rc d c1 ev1 c2 r2 ev2 c3 out ev3)
  from no_events_simps [OF success(2)] revalidate_events [OF success(3)]
    tryCommit_Done [OF success(4)]
  show ?case by auto
next
  case (retry i c r adj rc d c1 ev1 c2 r2 ev2 c3 err ev3 res)
  from retry(8) have u: "\<forall>e. outcomeOf res = Uncaught e \<longrightarrow> e = StorageError"
    and k: "ConsoleError (HttpError 409) \<in> set (eventsOf res) \<longrightarrow> keptEntry sp res"
    by blast+
  let ?pre = "ev1 @ ev2 @ ev3 @ [Toast (ConflictRetrying (rc + 1) M), Delay 1000]"
  have 2: "keptEntry sp (withEvents ?pre res)"
    if a: "ConsoleError (HttpError 409) \<in> set (eventsOf (withEvents ?pre res))"
  proof -
    from no_events_simps [OF retry(2)] revalidate_events [OF retry(3)]
      tryCommit_Thrown [OF retry(4)]
    have "ConsoleError (HttpError 409) \<notin> set ?pre" by auto
    with a have "ConsoleError (HttpError 409) \<in> set (eventsOf res)" by auto
    with k have "keptEntry sp res" by blast
    then show ?thesis by (rule keptEntry_prefix)
  qed
  from u 2 show ?case by simp
next
  case (failure i c r adj rc d c1 ev1 c2 r2 ev2 c3 err ev3)
  have u: "\<forall>e. outcomeOf (commitError (env i) c3 err r2) = Uncaught e \<longrightarrow> e = StorageError"
    by (simp add: commitError_cases)
  have k: "keptEntry sp (withEvents (ev1 @ ev2 @ ev3) (commitError (env i) c3 err r2))"
    if e: "err = HttpError 409"
  proof -
    from tryCommit_Thrown [OF failure(4)] e
    have st: "state c3 = addAssignment sp r2 (updateAssignedRecipients (state c2))"
      and ev3: "ev3 = [Assigned sp r2, PutFile GitHub (snd d) (assignments (state c3)) (Some (HttpError 409))]"
      and gh: "store c3 = GitHub"
      by auto
    have fin: "state (finalOf (commitError (env i) c3 err r2)) = state c3"
      by (simp add: commitError_cases)
    have "\<exists>post. eventsOf (commitError (env i) c3 err r2) = ConsoleError (HttpError 409) # post
        \<and> filter isLoopStep post = []"
      using gh e by (cases "localPutOk (env i)") (simp_all add: commitError_def Let_def)
    then obtain post where post: "eventsOf (commitError (env i) c3 err r2) = ConsoleError (HttpError 409) # post"
      "filter isLoopStep post = []"
      by blast
    have ev: "eventsOf (withEvents (ev1 @ ev2 @ ev3) (commitError (env i) c3 err r2))
        = (ev1 @ ev2) @ [Assigned sp r2,
            PutFile GitHub (snd d)
              (assignments (state (finalOf (withEvents (ev1 @ ev2 @ ev3) (commitError (env i) c3 err r2)))))
              (Some (HttpError 409)),
            ConsoleError (HttpError 409)] @ post"
      using post(1) ev3 fin by simp
    have m: "sp \<noteq> ''__proto__'' \<longrightarrow>
        map_of (assignments (state (finalOf (withEvents (ev1 @ ev2 @ ev3) (commitError (env i) c3 err r2))))) sp = Some r2
        \<and> r2 \<in> assignedRecipients (state (finalOf (withEvents (ev1 @ ev2 @ ev3) (commitError (env i) c3 err r2))))"
      using addAssignment_entry [of sp r2 "updateAssignedRecipients (state c2)"] st fin by simp
    from ev post(2) m show ?thesis
      unfolding keptEntry_def
      by (intro exI [of _ "ev1 @ ev2"] exI [of _ post] exI [of _ "snd d"] exI [of _ r2] conjI)
  qed
  from no_events_simps [OF failure(2)] revalidate_events [OF failure(3)]
    tryCommit_Thrown [OF failure(4)]
  have "ConsoleError (HttpError 409) \<in> set (eventsOf (withEvents (ev1 @ ev2 @ ev3)
          (commitError (env i) c3 err r2))) \<Longrightarrow> err = HttpError 409"
    by (auto simp: commitError_cases split: if_splits)
  with u k show ?case by auto
qed

section \<open>Exhaustion\<close>











section \<open>Uniqueness of recipients across commits\<close>

text \<open>
  C1. The uniqueness invariant is broken by successful commits. Two clients share one
  state file and start with an empty ledger; each read below returns what the commit
  before it wrote, each write passes the sha just read and is accepted, so all four
  commits reach the success return. Client 1 commits \<open>A \<rightarrow> B\<close>. Client 2, where \<open>A\<close>
  spins again, merges \<open>{A: B}\<close> and commits \<open>A \<rightarrow> C\<close>, which replaces the entry of \<open>A\<close> in
  the file. Client 1 still holds \<open>A \<rightarrow> B\<close>: the merge keeps its own entry for \<open>A\<close>, so it
  sees \<open>C\<close> as free and commits \<open>D \<rightarrow> C\<close>. Client 2 then merges \<open>{A: B, D: C}\<close> into its
  \<open>{A: C}\<close>, keeps its own entry for \<open>A\<close>, takes over \<open>D \<rightarrow> C\<close>, and commits \<open>B \<rightarrow> A\<close>:
  its ledger, and the file, now give \<open>C\<close> to both \<open>A\<close> and \<open>D\<close>.
\<close>

theorem successful_commits_share_a_recipient:
  "handleSpin (exampleRemote ''A'' [] ''s0'' (PutResponse 200)) ''A'' 0 (exampleClient [])
     = (exampleClient [(''A'', ''B'')], Committed ''B'',
        [SpinTo ''B'', GetFile GitHub (Some ''s0''), Assigned ''A'' ''B'',
         PutFile GitHub (Some ''s0'') [(''A'', ''B'')] None, ShowResult ''B''])
   \<and> handleSpin (exampleRemote ''A'' [(''A'', ''B'')] ''s1'' (PutResponse 200)) ''A'' 1
        (exampleClient [])
     = (exampleClient [(''A'', ''C'')], Committed ''C'',
        [SpinTo ''C'', GetFile GitHub (Some ''s1''), Assigned ''A'' ''C'',
         PutFile GitHub (Some ''s1'') [(''A'', ''C'')] None, ShowResult ''C''])
   \<and> handleSpin (exampleRemote ''D'' [(''A'', ''C'')] ''s2'' (PutResponse 200)) ''D'' 1
        (exampleClient [(''A'', ''B'')])
     = (exampleClient [(''A'', ''B''), (''D'', ''C'')], Committed ''C'',
        [SpinTo ''C'', GetFile GitHub (Some ''s2''), Assigned ''D'' ''C'',
         PutFile GitHub (Some ''s2'') [(''A'', ''B''), (''D'', ''C'')] None, ShowResult ''C''])
   \<and> handleSpin (exampleRemote ''B'' [(''A'', ''B''), (''D'', ''C'')] ''s3'' (PutResponse 200))
        ''B'' 0 (exampleClient [(''A'', ''C'')])
     = (exampleClient [(''A'', ''C''), (''D'', ''C''), (''B'', ''A'')], Committed ''A'',
        [SpinTo ''A'', GetFile GitHub (Some ''s3''), Assigned ''B'' ''A'',
         PutFile GitHub (Some ''s3'') [(''A'', ''C''), (''D'', ''C''), (''B'', ''A'')] None,
         ShowResult ''A''])
   \<and> map_of [(''A'', ''C''), (''D'', ''C''), (''B'', ''A'')] ''A'' = Some ''C''
   \<and> map_of [(''A'', ''C''), (''D'', ''C''), (''B'', ''A'')] ''D'' = Some ''C''
   \<and> \<not> uniqueRecipients [(''A'', ''C''), (''D'', ''C''), (''B'', ''A'')]"
proof -
  have 1: "handleSpin (exampleRemote ''A'' [] ''s0'' (PutResponse 200)) ''A'' 0 (exampleClient [])
     = (exampleClient [(''A'', ''B'')], Committed ''B'',
        [SpinTo ''B'', GetFile GitHub (Some ''s0''), Assigned ''A'' ''B'',
         PutFile GitHub (Some ''s0'') [(''A'', ''B'')] None, ShowResult ''B''])"
    by (simp add: run_defs)
  have 2: "handleSpin (exampleRemote ''A'' [(''A'', ''B'')] ''s1'' (PutResponse 200)) ''A'' 1
        (exampleClient [])
     = (exampleClient [(''A'', ''C'')], Committed ''C'',
        [SpinTo ''C'', GetFile GitHub (Some ''s1''), Assigned ''A'' ''C'',
         PutFile GitHub (Some ''s1'') [(''A'', ''C'')] None, ShowResult ''C''])"
    by (simp add: run_defs)
  have 3: "handleSpin (exampleRemote ''D'' [(''A'', ''C'')] ''s2'' (PutResponse 200)) ''D'' 1
        (exampleClient [(''A'', ''B'')])
     = (exampleClient [(''A'', ''B''), (''D'', ''C'')], Committed ''C'',
        [SpinTo ''C'', GetFile GitHub (Some ''s2''), Assigned ''D'' ''C'',
         PutFile GitHub (Some ''s2'') [(''A'', ''B''), (''D'', ''C'')] None, ShowResult ''C''])"
    by (simp add: run_defs)
  have 4: "handleSpin (exampleRemote ''B'' [(''A'', ''B''), (''D'', ''C'')] ''s3'' (PutResponse 200))
        ''B'' 0 (exampleClient [(''A'', ''C'')])
     = (exampleClient [(''A'', ''C''), (''D'', ''C''), (''B'', ''A'')], Committed ''A'',
        [SpinTo ''A'', GetFile GitHub (Some ''s3''), Assigned ''B'' ''A'',
         PutFile GitHub (Some ''s3'') [(''A'', ''C''), (''D'', ''C''), (''B'', ''A'')] None,
         ShowResult ''A''])"
    by (simp add: run_defs)
  have 5: "map_of [(''A'', ''C''), (''D'', ''C''), (''B'', ''A'')] ''A'' = Some ''C''"
    by simp
  have 6: "map_of [(''A'', ''C''), (''D'', ''C''), (''B'', ''A'')] ''D'' = Some ''C''"
    by simp
  have 7: "\<not> uniqueRecipients [(''A'', ''C''), (''D'', ''C''), (''B'', ''A'')]"
    by (simp add: uniqueRecipients_def objectValues_def)
  show ?thesis
    by (intro conjI 1 2 3 4 5 6 7)
qed

text \<open>
  The ledger that the fourth commit leaves in memory, and has written to the file, does
  not have unique recipients.
\<close>

theorem successful_commits_share_a_recipient_witness:
  "\<not> uniqueRecipients
       (assignments (state (finalOf
          (handleSpin (exampleRemote ''B'' [(''A'', ''B''), (''D'', ''C'')] ''s3'' (PutResponse 200))
             ''B'' 0 (exampleClient [(''A'', ''C'')])))))"
proof -
  note runs = successful_commits_share_a_recipient
  from runs have run: "handleSpin (exampleRemote ''B'' [(''A'', ''B''), (''D'', ''C'')] ''s3'' (PutResponse 200))
        ''B'' 0 (exampleClient [(''A'', ''C'')])
     = (exampleClient [(''A'', ''C''), (''D'', ''C''), (''B'', ''A'')], Committed ''A'',
        [SpinTo ''A'', GetFile GitHub (Some ''s3''), Assigned ''B'' ''A'',
         PutFile GitHub (Some ''s3'') [(''A'', ''C''), (''D'', ''C''), (''B'', ''A'')] None,
         ShowResult ''A''])"
    by (rule conjunct2 [THEN conjunct2, THEN conjunct2, THEN conjunct1])
  from runs have nu: "\<not> uniqueRecipients [(''A'', ''C''), (''D'', ''C''), (''B'', ''A'')]"
    by (rule conjunct2 [THEN conjunct2, THEN conjunct2, THEN conjunct2, THEN conjunct2, THEN conjunct2])
  have "assignments (state (exampleClient [(''A'', ''C''), (''D'', ''C''), (''B'', ''A'')]))
      = [(''A'', ''C''), (''D'', ''C''), (''B'', ''A'')]"
    by (simp add: exampleClient_def)
  with nu show ?thesis
    unfolding run by simp
qed

section \<open>Merging a remote key that names an inherited member\<close>

text \<open>
  C2. The merge does not adopt every remote key that the local mapping lacks. The test
  \<^verbatim>\<open>!this.assignments[key]\<close> reads the key through the prototype chain, so for the
  key \<^verbatim>\<open>constructor\<close>, the entry of a spinner of that name, the read gives the
  inherited function \<open>Object\<close>, which is truthy. A client
  with an empty ledger that merges the remote mapping \<^verbatim>\<open>{constructor: B}\<close> keeps an
  empty ledger and an empty assigned set. \<open>B\<close> stays eligible there: the spin of \<open>A\<close>
  commits \<open>A \<rightarrow> B\<close>, and the accepted write replaces the file by \<^verbatim>\<open>{A: B}\<close>, without
  the entry of \<^verbatim>\<open>constructor\<close>. The example of the claim, on ordinary keys, holds.
\<close>

theorem mergeAssignments_skips_inherited_key:
  "mergeAssignments [(''constructor'', ''B'')] (state (exampleClient [])) = state (exampleClient [])
   \<and> assignments (mergeAssignments [(''constructor'', ''B'')] (state (exampleClient []))) = []
   \<and> map_of (assignments (mergeAssignments [(''constructor'', ''B'')] (state (exampleClient []))))
        ''constructor'' = None
   \<and> handleSpin (exampleRemote ''A'' [(''constructor'', ''B'')] ''s1'' (PutResponse 200)) ''A'' 0
        (exampleClient [])
     = (exampleClient [(''A'', ''B'')], Committed ''B'',
        [SpinTo ''B'', GetFile GitHub (Some ''s1''), Assigned ''A'' ''B'',
         PutFile GitHub (Some ''s1'') [(''A'', ''B'')] None, ShowResult ''B''])
   \<and> assignments (mergeAssignments [(''A'', ''C''), (''D'', ''E'')]
        ((state (exampleClient [(''A'', ''B'')]))))
     = [(''A'', ''B''), (''D'', ''E'')]"
proof -
  have 1: "mergeAssignments [(''constructor'', ''B'')] (state (exampleClient []))
      = state (exampleClient [])"
    by (simp add: run_defs)
  have 2: "assignments (mergeAssignments [(''constructor'', ''B'')] (state (exampleClient []))) = []"
    by (simp add: run_defs)
  have 3: "map_of (assignments (mergeAssignments [(''constructor'', ''B'')] (state (exampleClient []))))
        ''constructor'' = None"
    by (simp add: run_defs)
  have 4: "handleSpin (exampleRemote ''A'' [(''constructor'', ''B'')] ''s1'' (PutResponse 200)) ''A'' 0
        (exampleClient [])
     = (exampleClient [(''A'', ''B'')], Committed ''B'',
        [SpinTo ''B'', GetFile GitHub (Some ''s1''), Assigned ''A'' ''B'',
         PutFile GitHub (Some ''s1'') [(''A'', ''B'')] None, ShowResult ''B''])"
    by (simp add: run_defs)
  have 5: "assignments (mergeAssignments [(''A'', ''C''), (''D'', ''E'')]
        ((state (exampleClient [(''A'', ''B'')]))))
     = [(''A'', ''B''), (''D'', ''E'')]"
    by (simp add: run_defs)
  show ?thesis
    by (intro conjI 1 2 3 4 5)
qed

text \<open>
  The ledger that the commit of \<open>A\<close> leaves in memory, and has written over the file, has
  no entry for \<^verbatim>\<open>constructor\<close>.
\<close>

theorem mergeAssignments_skips_inherited_key_witness:
  "map_of (assignments (state (finalOf
       (handleSpin (exampleRemote ''A'' [(''constructor'', ''B'')] ''s1'' (PutResponse 200)) ''A'' 0
          (exampleClient [])))))
     ''constructor'' = None"
proof -
  note facts = mergeAssignments_skips_inherited_key
  from facts have run: "handleSpin (exampleRemote ''A'' [(''constructor'', ''B'')] ''s1'' (PutResponse 200)) ''A'' 0
        (exampleClient [])
     = (exampleClient [(''A'', ''B'')], Committed ''B'',
        [SpinTo ''B'', GetFile GitHub (Some ''s1''), Assigned ''A'' ''B'',
         PutFile GitHub (Some ''s1'') [(''A'', ''B'')] None, ShowResult ''B''])"
    by (rule conjunct2 [THEN conjunct2, THEN conjunct2, THEN conjunct1])
  show ?thesis
    unfolding run by (simp add: exampleClient_def)
qed

subsection \<open>What the merge adopts and what it keeps\<close>

lemma fold_keeps_remote_value:
  "map_of a k = map_of r k \<Longrightarrow> map_of (foldl (mergeKey r) a ks) k = map_of r k"
  by (induction ks arbitrary: a) (simp_all add: map_of_mergeKey)

lemma fold_adopts:
  "k \<in> set ks \<Longrightarrow> \<not> truthy (propertyRead a k) \<Longrightarrow> map_of r k \<noteq> None \<Longrightarrow>
     map_of (foldl (mergeKey r) a ks) k = map_of r k"
proof (induction ks arbitrary: a)
  case Nil
  then show ?case by simp
next
  case (Cons k' ks)
  show ?case
  proof (cases "k' = k")
    case True
    with Cons.prems have "map_of (mergeKey r a k') k = map_of r k"
      by (simp add: map_of_mergeKey)
    then show ?thesis by (simp add: fold_keeps_remote_value)
  next
    case False
    then have m: "map_of (mergeKey r a k') k = map_of a k"
      by (auto simp: map_of_mergeKey)
    then have "propertyRead (mergeKey r a k') k = propertyRead a k"
      by (rule propertyRead_map_of)
    with Cons.prems have "\<not> truthy (propertyRead (mergeKey r a k') k)" by simp
    moreover from False Cons.prems have "k \<in> set ks" by simp
    ultimately show ?thesis using Cons.prems(3) by (simp add: Cons.IH)
  qed
qed

lemma assignments_merge:
  "assignments (mergeAssignments r st) = foldl (mergeKey r) (assignments st) (objectKeys r)"
  by (simp add: mergeAssignments_def updateAssignedRecipients_def)

text \<open>
  The merge as the code has it, for every local state, remote mapping and key: a remote
  key whose local read is falsy takes the remote value; a key whose local read is truthy
  keeps what it has; a key that the remote mapping does not have is unchanged; no key is
  removed.
\<close>

lemma mergeAssignments_by_truthiness:
  "(k \<in> set (objectKeys r) \<and> \<not> truthy (propertyRead (assignments st) k)
      \<longrightarrow> map_of (assignments (mergeAssignments r st)) k = map_of r k)
   \<and> (truthy (propertyRead (assignments st) k)
      \<longrightarrow> map_of (assignments (mergeAssignments r st)) k = map_of (assignments st) k)
   \<and> (k \<notin> set (objectKeys r)
      \<longrightarrow> map_of (assignments (mergeAssignments r st)) k = map_of (assignments st) k)
   \<and> set (objectKeys (assignments st)) \<subseteq> set (objectKeys (assignments (mergeAssignments r st)))"
proof -
  have 1: "map_of (assignments (mergeAssignments r st)) k = map_of r k"
    if "k \<in> set (objectKeys r)" "\<not> truthy (propertyRead (assignments st) k)"
  proof -
    from that(1) have "map_of r k \<noteq> None"
      by (simp add: objectKeys_def map_of_eq_None_iff)
    with that show ?thesis
      by (simp add: assignments_merge fold_adopts)
  qed
  have 2: "map_of (assignments (mergeAssignments r st)) k = map_of (assignments st) k"
    if "truthy (propertyRead (assignments st) k)"
    using that by (simp add: assignments_merge truthy_fold_keeps)
  have 3: "map_of (assignments (mergeAssignments r st)) k = map_of (assignments st) k"
    if "k \<notin> set (objectKeys r)"
    using that by (simp add: assignments_merge outside_fold_keeps)
  have 4: "set (objectKeys (assignments st)) \<subseteq> set (objectKeys (assignments (mergeAssignments r st)))"
    using dom_fold_grows [of "assignments st" r "objectKeys r"]
    by (simp add: assignments_merge objectKeys_def)
  from 1 2 3 4 show ?thesis by blast
qed

text \<open>
  On ordinary input the merge is the union that keeps the local entries: when no local
  value is the empty string and the key is not the name of an inherited member, a remote
  key that the local mapping lacks is adopted and a local key keeps its value.
\<close>

lemma mergeAssignments_on_ordinary_keys:
  assumes "[] \<notin> set (objectValues (assignments st))" and "k \<notin> set objectPrototypeNames"
  shows "(k \<in> set (objectKeys r) \<and> map_of (assignments st) k = None
            \<longrightarrow> map_of (assignments (mergeAssignments r st)) k = map_of r k)
         \<and> (map_of (assignments st) k \<noteq> None
            \<longrightarrow> map_of (assignments (mergeAssignments r st)) k = map_of (assignments st) k)"
proof -
  have a: "\<not> truthy (propertyRead (assignments st) k)" if "map_of (assignments st) k = None"
    using that assms(2) by (simp add: propertyRead_def)
  have b: "truthy (propertyRead (assignments st) k)" if "map_of (assignments st) k \<noteq> None"
  proof -
    from that obtain v where v: "map_of (assignments st) k = Some v" by auto
    then have "(k, v) \<in> set (assignments st)" by (rule map_of_SomeD)
    then have "v \<in> set (objectValues (assignments st))"
      by (force simp: objectValues_def)
    with assms(1) have "v \<noteq> []" by auto
    with v show ?thesis by (simp add: propertyRead_def)
  qed
  from a b mergeAssignments_by_truthiness [of k r st] show ?thesis by blast
qed

section \<open>The identity select during a spin\<close>

text \<open>
  C3. A spinner can be assigned to itself. \<open>A\<close> is selected at the click and the wheel
  picks \<open>B\<close>; \<open>commitAssignment\<close> runs for the spinner \<open>A\<close>. During the animation the
  select is changed to \<open>C\<close> (only the spin button is locked). The file read by the commit
  holds \<open>D \<rightarrow> B\<close>, so \<open>B\<close> is taken and the re-validation picks again, from the recipients
  eligible for the value the select holds now: \<open>C\<close> is left out, \<open>A\<close> is not, and \<open>A\<close> is
  picked. The adjustment spin commits \<open>A \<rightarrow> A\<close>: the write is accepted and the result
  modal shows \<open>A\<close> to \<open>A\<close>.
\<close>

theorem self_assignment_after_select_change:
  "handleSpin (exampleRemote ''C'' [(''D'', ''B'')] ''s1'' (PutResponse 200)) ''A'' 0
        (exampleClient [])
     = (exampleClient [(''D'', ''B''), (''A'', ''A'')], Committed ''A'',
        [SpinTo ''B'', GetFile GitHub (Some ''s1''), SpinTo ''A'',
         Toast AdjustedDueToConflict, GetFile GitHub (Some ''s1''),
         Assigned ''A'' ''A'',
         PutFile GitHub (Some ''s1'') [(''D'', ''B''), (''A'', ''A'')] None,
         ShowResult ''A''])
   \<and> map_of (assignments (state (exampleClient [(''D'', ''B''), (''A'', ''A'')]))) ''A''
       = Some ''A''"
proof -
  have 1: "handleSpin (exampleRemote ''C'' [(''D'', ''B'')] ''s1'' (PutResponse 200)) ''A'' 0
        (exampleClient [])
     = (exampleClient [(''D'', ''B''), (''A'', ''A'')], Committed ''A'',
        [SpinTo ''B'', GetFile GitHub (Some ''s1''), SpinTo ''A'',
         Toast AdjustedDueToConflict, GetFile GitHub (Some ''s1''),
         Assigned ''A'' ''A'',
         PutFile GitHub (Some ''s1'') [(''D'', ''B''), (''A'', ''A'')] None,
         ShowResult ''A''])"
    by (simp add: run_defs)
  have 2: "map_of (assignments (state (exampleClient [(''D'', ''B''), (''A'', ''A'')]))) ''A''
       = Some ''A''"
    by (simp add: exampleClient_def)
  show ?thesis
    by (intro conjI 1 2)
qed

text \<open>The spin of \<open>A\<close> ends with the success return, and the committed recipient is \<open>A\<close>.\<close>

theorem self_assignment_after_select_change_witness:
  "outcomeOf (handleSpin (exampleRemote ''C'' [(''D'', ''B'')] ''s1'' (PutResponse 200)) ''A'' 0
        (exampleClient [])) = Committed ''A''"
proof -
  note facts = self_assignment_after_select_change
  from facts have run: "handleSpin (exampleRemote ''C'' [(''D'', ''B'')] ''s1'' (PutResponse 200)) ''A'' 0
        (exampleClient [])
     = (exampleClient [(''D'', ''B''), (''A'', ''A'')], Committed ''A'',
        [SpinTo ''B'', GetFile GitHub (Some ''s1''), SpinTo ''A'',
         Toast AdjustedDueToConflict, GetFile GitHub (Some ''s1''),
         Assigned ''A'' ''A'',
         PutFile GitHub (Some ''s1'') [(''D'', ''B''), (''A'', ''A'')] None,
         ShowResult ''A''])"
    by (rule conjunct1)
  show ?thesis
    unfolding run by simp
qed

subsection \<open>No self-assignment while the select is unchanged\<close>

lemma eligible_excludes_identity:
  "x \<noteq> [] \<Longrightarrow> r \<in> set (getEligibleRecipients st (Some x)) \<Longrightarrow> r \<noteq> x"
  by (auto simp: getEligibleRecipients_def Let_def given_def)

lemma neverSelf_prefix:
  "neverSelf x res \<Longrightarrow> (\<And>r. ShowResult r \<notin> set pre) \<Longrightarrow> (\<And>sp r. Assigned sp r \<in> set pre \<Longrightarrow> r \<noteq> x)
     \<Longrightarrow> neverSelf x (withEvents pre res)"
  unfolding neverSelf_def by auto

lemma neverSelf_afterAdjustment:
  "neverSelf x res \<Longrightarrow> neverSelf x (afterAdjustment res)"
  unfolding neverSelf_def
  by (auto simp: afterAdjustment_outcome afterAdjustment_events split: outcome.splits)

lemma commitLoop_neverSelf:
  assumes x: "x \<noteq> []" and sel: "\<forall>i. selectValue (env i) = x"
  shows "r \<noteq> x \<longrightarrow> neverSelf x (commitLoop env M i c sp r adj rc)"
proof (induction i c r adj rc rule: commitLoop_run [where M = M and env = env and sp = sp])
  case (exhausted i c r adj rc)
  then show ?case by (simp add: neverSelf_def)
next
  case (abort i c r adj rc d c1 ev1 c2 ev2)
  then show ?case
    by (auto simp: neverSelf_def dest!: readState_events revalidate_Abort)
next
  case (stalled i c r adj rc d c1 ev1 c2 r2 ev2)
  then show ?case
    by (auto simp: neverSelf_def dest!: readState_events revalidate_Adjust)
next
  case (adjust i c r adj rc d c1 ev1 c2 r2 ev2 res)
  from revalidate_Adjust [OF adjust(3)] sel
  have "r2 \<in> set (getEligibleRecipients (state c2) (Some x))" and ev2: "ev2 = [Toast AdjustedDueToConflict]"
    by auto
  with x have r2: "r2 \<noteq> x" by (auto dest: eligible_excludes_identity)
  with adjust(6) have "neverSelf x res" by simp
  then have "neverSelf x (afterAdjustment res)" by (rule neverSelf_afterAdjustment)
  then have "neverSelf x (withEvents (ev1 @ SpinTo r2 # ev2) (afterAdjustment res))"
    using readState_events [OF adjust(2)] ev2 by (intro neverSelf_prefix) auto
  then show ?case by simp
next
  case (success i c r adj rc d c1 ev1 c2 r2 ev2 c3 out ev3)
  show ?case
  proof
    assume r: "r \<noteq> x"
    from revalidate_Proceed [OF success(3)] sel r x
    have r2: "r2 \<noteq> x" and ev2: "ev2 = [] \<or> ev2 = [Toast AdjustingToAvailable]"
      by (auto dest: eligible_excludes_identity)
    from tryCommit_Done [OF success(4)] readState_events [OF success(2)] ev2 r2
    show "neverSelf x (c3, out, ev1 @ ev2 @ ev3)"
      by (auto simp: neverSelf_def)
  qed
next
  case (retry i c r adj rc d c1 ev1 c2 r2 ev2 c3 err ev3 res)
  show ?case
  proof
    assume r: "r \<noteq> x"
    from revalidate_Proceed [OF retry(3)] sel r x
    have r2: "r2 \<noteq> x" and ev2: "ev2 = [] \<or> ev2 = [Toast AdjustingToAvailable]"
      by (auto dest: eligible_excludes_identity)
    from retry(8) r2 have "neverSelf x res" by simp
    then show "neverSelf x (withEvents (ev1 @ ev2 @ ev3 @ [Toast (ConflictRetrying (rc + 1) M), Delay 1000]) res)"
      using tryCommit_Thrown [OF retry(4)] readState_events [OF retry(2)] ev2 r2
      by (intro neverSelf_prefix) auto
  qed
next
  case (failure i c r adj rc d c1 ev1 c2 r2 ev2 c3 err ev3)
  show ?case
  proof
    assume r: "r \<noteq> x"
    from revalidate_Proceed [OF failure(3)] sel r x
    have r2: "r2 \<noteq> x" and ev2: "ev2 = [] \<or> ev2 = [Toast AdjustingToAvailable]"
      by (auto dest: eligible_excludes_identity)
    have "neverSelf x (commitError (env i) c3 err r2)"
      using r2 by (simp add: neverSelf_def commitError_cases)
    then show "neverSelf x (withEvents (ev1 @ ev2 @ ev3) (commitError (env i) c3 err r2))"
      using tryCommit_Thrown [OF failure(4)] readState_events [OF failure(2)] ev2 r2
      by (intro neverSelf_prefix) auto
  qed
qed

text \<open>
  When the identity select holds the non-empty name \<open>x\<close> at the click and at every
  re-validation of the spin, the spin never assigns \<open>x\<close> to itself: no commit or fallback
  has the recipient \<open>x\<close>, the result modal never shows \<open>x\<close>, and \<open>addAssignment\<close> is never
  called with the recipient \<open>x\<close>.
\<close>

lemma handleSpin_never_self_while_select_unchanged:
  assumes x: "x \<noteq> []" and sel: "\<forall>i. selectValue (env i) = x"
  shows "neverSelf x (handleSpin env x pick c)"
proof -
  let ?st = "updateAssignedRecipients (state c)"
  show ?thesis
  proof (cases "randomChoice (getEligibleRecipients ?st (Some x)) pick")
    case None
    then show ?thesis
      by (simp add: handleSpin_def Let_def neverSelf_def)
  next
    case (Some target)
    then have "target \<in> set (getEligibleRecipients ?st (Some x))"
      by (rule randomChoice_Some)
    with x have t: "target \<noteq> x" by (rule eligible_excludes_identity)
    let ?c2 = "c\<lparr>state := ?st, isLoading := True\<rparr>"
    have "neverSelf x (commitLoop env (maxRetriesOf ?c2) 0 ?c2 x target False 0)"
      using commitLoop_neverSelf [OF x sel, of target "maxRetriesOf ?c2" 0 ?c2 x False 0] t
      by simp
    then have "neverSelf x (withEvents [SpinTo target] (commitAssignment env ?c2 x target False))"
      unfolding commitAssignment_def by (intro neverSelf_prefix) auto
    then show ?thesis
      using Some x by (simp add: handleSpin_def Let_def neverSelf_def)
  qed
qed

section \<open>The state after exhausted conflicts\<close>

text \<open>
  C4. Exhausted conflicts, as the code has them. The outer \<open>catch\<close> logs a 409 only when
  a write was rejected with Conflict and the retry count is exhausted. In every such run
  the spin's assignment stays applied in memory. The trace ends with the last attempt:
  \<open>addAssignment\<close> for the spinner and a recipient \<open>r\<close>, the write to GitHub that was
  rejected with 409, and the logged 409, after which no step of the loop follows (no
  read, no other call of \<open>addAssignment\<close>, no other write of the commit). The content
  of that last rejected write is the final in-memory ledger, and, for a spinner other than
  \<^verbatim>\<open>__proto__\<close>, the final ledger maps the spinner to \<open>r\<close> and the assigned set
  contains \<open>r\<close>. \<open>addAssignment\<close> runs before each write and nothing undoes it.
\<close>

theorem conflict_exhaustion_keeps_assignment:
  assumes "ConsoleError (HttpError 409)
             \<in> set (eventsOf (commitAssignment env c spinner recipient isAdjustment))"
  shows "\<exists>pre post h r.
           eventsOf (commitAssignment env c spinner recipient isAdjustment)
             = pre @ [Assigned spinner r,
                      PutFile GitHub h
                        (assignments (state (finalOf (commitAssignment env c spinner recipient isAdjustment))))
                        (Some (HttpError 409)),
                      ConsoleError (HttpError 409)] @ post
           \<and> filter isLoopStep post = []
           \<and> (spinner \<noteq> ''__proto__'' \<longrightarrow>
                map_of (assignments (state (finalOf (commitAssignment env c spinner recipient isAdjustment))))
                  spinner = Some r
                \<and> r \<in> assignedRecipients
                       (state (finalOf (commitAssignment env c spinner recipient isAdjustment))))"
proof -
  have "ConsoleError (HttpError 409)
          \<in> set (eventsOf (commitLoop env (maxRetriesOf c) 0 c spinner recipient isAdjustment 0))
        \<longrightarrow> keptEntry spinner (commitLoop env (maxRetriesOf c) 0 c spinner recipient isAdjustment 0)"
    using commitLoop_conflict_exhausted [of env "maxRetriesOf c" 0 c spinner recipient isAdjustment 0]
    by (rule conjunct2)
  with assms have "keptEntry spinner (commitAssignment env c spinner recipient isAdjustment)"
    unfolding commitAssignment_def by (rule mp [rotated])
  then show ?thesis
    unfolding keptEntry_def .
qed

text \<open>
  A run that exhausts the default retry count on conflicts: the last attempt adds
  \<open>A \<rightarrow> C\<close>, and the final ledger maps \<open>A\<close> to \<open>C\<close>.
\<close>

theorem conflict_exhaustion_keeps_assignment_witness:
  "ConsoleError (HttpError 409)
     \<in> set (eventsOf (commitAssignment (exampleRemote ''A'' [] ''s0'' (PutResponse 409)) (exampleClient []) ''A'' ''B'' False))
   \<and> (\<exists>pre post h r.
        eventsOf (commitAssignment (exampleRemote ''A'' [] ''s0'' (PutResponse 409)) (exampleClient []) ''A'' ''B'' False)
          = pre @ [Assigned ''A'' r,
                   PutFile GitHub h
                     (assignments (state (finalOf (commitAssignment (exampleRemote ''A'' [] ''s0'' (PutResponse 409)) (exampleClient []) ''A'' ''B'' False))))
                     (Some (HttpError 409)),
                   ConsoleError (HttpError 409)] @ post
        \<and> filter isLoopStep post = []
        \<and> map_of (assignments (state (finalOf (commitAssignment (exampleRemote ''A'' [] ''s0'' (PutResponse 409)) (exampleClient []) ''A'' ''B'' False))))
             ''A'' = Some r
        \<and> r \<in> assignedRecipients
               (state (finalOf (commitAssignment (exampleRemote ''A'' [] ''s0'' (PutResponse 409)) (exampleClient []) ''A'' ''B'' False))))"
proof -
  define res where "res = commitAssignment (exampleRemote ''A'' [] ''s0'' (PutResponse 409)) (exampleClient []) ''A'' ''B'' False"
  have h: "ConsoleError (HttpError 409) \<in> set (eventsOf res)"
    unfolding res_def by (simp add: run_defs)
  have "\<exists>pre post h r.
           eventsOf res
             = pre @ [Assigned ''A'' r,
                      PutFile GitHub h (assignments (state (finalOf res))) (Some (HttpError 409)),
                      ConsoleError (HttpError 409)] @ post
           \<and> filter isLoopStep post = []
           \<and> (''A'' \<noteq> ''__proto__'' \<longrightarrow>
                map_of (assignments (state (finalOf res))) ''A'' = Some r
                \<and> r \<in> assignedRecipients (state (finalOf res)))"
    using h unfolding res_def by (rule conflict_exhaustion_keeps_assignment)
  then obtain pre post hh r where
    e: "eventsOf res
             = pre @ [Assigned ''A'' r,
                      PutFile GitHub hh (assignments (state (finalOf res))) (Some (HttpError 409)),
                      ConsoleError (HttpError 409)] @ post"
    and q: "filter isLoopStep post = []"
    and m: "''A'' \<noteq> ''__proto__'' \<longrightarrow>
                map_of (assignments (state (finalOf res))) ''A'' = Some r
                \<and> r \<in> assignedRecipients (state (finalOf res))"
    by blast
  have ne: "''A'' \<noteq> ''__proto__''" by simp
  from m ne have m': "map_of (assignments (state (finalOf res))) ''A'' = Some r
                \<and> r \<in> assignedRecipients (state (finalOf res))"
    by (rule mp)
  have "\<exists>pre post h r.
           eventsOf res
             = pre @ [Assigned ''A'' r,
                      PutFile GitHub h (assignments (state (finalOf res))) (Some (HttpError 409)),
                      ConsoleError (HttpError 409)] @ post
           \<and> filter isLoopStep post = []
           \<and> map_of (assignments (state (finalOf res))) ''A'' = Some r
           \<and> r \<in> assignedRecipients (state (finalOf res))"
    using e q m' by blast
  with h show ?thesis
    unfolding res_def by (rule conjI)
qed

text \<open>
  C4 fails as stated. With the default retry count 3 and every write rejected with 409,
  the commit does not end with the retries-exhausted prompt and does not leave the ledger
  without the spin's entry: the last 409 is thrown to the outer \<open>catch\<close>, which saves to
  the local store and shows the result, and the ledger keeps \<open>A \<rightarrow> C\<close> from the last
  attempt.
\<close>

theorem failed_state_counterexample:
  "(commitAssignment (exampleRemote ''A'' [] ''s0'' (PutResponse 409)) (exampleClient []) ''A'' ''B'' False)
     = (((exampleClient [(''A'', ''C'')])\<lparr>store := Local,
          localItem := Some (Json (Some [(''A'', ''C'')]))\<rparr>),
        FallenBack ''C'',
        [GetFile GitHub (Some ''s0''), Assigned ''A'' ''B'',
         PutFile GitHub (Some ''s0'') [(''A'', ''B'')] (Some (HttpError 409)),
         Toast (ConflictRetrying 1 3), Delay 1000,
         GetFile GitHub (Some ''s0''), SpinTo ''C'', Toast AdjustedDueToConflict,
         GetFile GitHub (Some ''s0''), Assigned ''A'' ''C'',
         PutFile GitHub (Some ''s0'') [(''A'', ''C'')] (Some (HttpError 409)),
         Toast (ConflictRetrying 1 3), Delay 1000,
         GetFile GitHub (Some ''s0''), Toast AdjustingToAvailable, Assigned ''A'' ''B'',
         PutFile GitHub (Some ''s0'') [(''A'', ''B'')] (Some (HttpError 409)),
         Toast (ConflictRetrying 2 3), Delay 1000,
         GetFile GitHub (Some ''s0''), Toast AdjustingToAvailable, Assigned ''A'' ''C'',
         PutFile GitHub (Some ''s0'') [(''A'', ''C'')] (Some (HttpError 409)),
         ConsoleError (HttpError 409), Toast GitHubWriteFailed,
         FallbackPut [(''A'', ''C'')], ShowResult ''C''])
   \<and> Toast FailedAfterRetries \<notin> set (eventsOf (commitAssignment (exampleRemote ''A'' [] ''s0'' (PutResponse 409)) (exampleClient []) ''A'' ''B'' False))
   \<and> map_of (assignments (state (finalOf (commitAssignment (exampleRemote ''A'' [] ''s0'' (PutResponse 409)) (exampleClient []) ''A'' ''B'' False)))) ''A'' = Some ''C''
   \<and> ''C'' \<in> assignedRecipients (state (finalOf (commitAssignment (exampleRemote ''A'' [] ''s0'' (PutResponse 409)) (exampleClient []) ''A'' ''B'' False)))"
proof -
  have run: "(commitAssignment (exampleRemote ''A'' [] ''s0'' (PutResponse 409)) (exampleClient []) ''A'' ''B'' False)
     = (((exampleClient [(''A'', ''C'')])\<lparr>store := Local,
          localItem := Some (Json (Some [(''A'', ''C'')]))\<rparr>),
        FallenBack ''C'',
        [GetFile GitHub (Some ''s0''), Assigned ''A'' ''B'',
         PutFile GitHub (Some ''s0'') [(''A'', ''B'')] (Some (HttpError 409)),
         Toast (ConflictRetrying 1 3), Delay 1000,
         GetFile GitHub (Some ''s0''), SpinTo ''C'', Toast AdjustedDueToConflict,
         GetFile GitHub (Some ''s0''), Assigned ''A'' ''C'',
         PutFile GitHub (Some ''s0'') [(''A'', ''C'')] (Some (HttpError 409)),
         Toast (ConflictRetrying 1 3), Delay 1000,
         GetFile GitHub (Some ''s0''), Toast AdjustingToAvailable, Assigned ''A'' ''B'',
         PutFile GitHub (Some ''s0'') [(''A'', ''B'')] (Some (HttpError 409)),
         Toast (ConflictRetrying 2 3), Delay 1000,
         GetFile GitHub (Some ''s0''), Toast AdjustingToAvailable, Assigned ''A'' ''C'',
         PutFile GitHub (Some ''s0'') [(''A'', ''C'')] (Some (HttpError 409)),
         ConsoleError (HttpError 409), Toast GitHubWriteFailed,
         FallbackPut [(''A'', ''C'')], ShowResult ''C''])"
    by (simp add: run_defs)
  show ?thesis
    unfolding run by (simp add: exampleClient_def objectValues_def)
qed

section \<open>Transient write failures\<close>

text \<open>
  C5. Transient failures are not retried. In every run of \<open>commitAssignment\<close>, whatever
  the store answers and however many conflicts came before, a write to GitHub that fails
  with a transient error is directly followed by the outer \<open>catch\<close>: the error is logged,
  the notice that the GitHub write failed is shown and the content of the failed write is
  saved to the local store; no read, delay, retry toast, call of \<open>addAssignment\<close> or write
  of the commit follows. When the local store works, the content of the failed write is
  the final ledger, the local store is the active store and holds that ledger, and the
  run ends fallen back with the recipient \<open>r\<close> of a call of \<open>addAssignment\<close> for the
  spinner, shown in the result modal.
\<close>

theorem transient_write_failure_not_retried:
  "failuresEnd transient (eventsOf (commitAssignment env c spinner recipient isAdjustment))
   \<and> ((\<forall>i. localPutOk (env i)) \<longrightarrow>
        (\<forall>h m err.
           PutFile GitHub h m (Some err)
             \<in> set (eventsOf (commitAssignment env c spinner recipient isAdjustment))
           \<and> transient err \<longrightarrow>
           m = assignments (state (finalOf (commitAssignment env c spinner recipient isAdjustment)))
           \<and> store (finalOf (commitAssignment env c spinner recipient isAdjustment)) = Local
           \<and> localItem (finalOf (commitAssignment env c spinner recipient isAdjustment))
               = Some (Json (Some m))
           \<and> (\<exists>r. outcomeOf (commitAssignment env c spinner recipient isAdjustment) = FallenBack r
                \<and> Assigned spinner r
                     \<in> set (eventsOf (commitAssignment env c spinner recipient isAdjustment))
                \<and> ShowResult r
                     \<in> set (eventsOf (commitAssignment env c spinner recipient isAdjustment)))))"
proof -
  define res where "res = commitLoop env (maxRetriesOf c) 0 c spinner recipient isAdjustment 0"
  have "traceOk (maxRetriesOf c) 0 (eventsOf res)"
    unfolding res_def by (rule commitLoop_traceOk)
  then have "failuresEnd hard (eventsOf res)"
    by (simp add: traceOk_def)
  then have 1: "failuresEnd transient (eventsOf res)"
    by (rule failuresEnd_mono) (rule transient_hard)
  have fb: "fellBack res"
    unfolding res_def by (rule commitLoop_fellBack)
  have 2: "m = assignments (state (finalOf res)) \<and> store (finalOf res) = Local
           \<and> localItem (finalOf res) = Some (Json (Some m))
           \<and> (\<exists>r. outcomeOf res = FallenBack r \<and> Assigned spinner r \<in> set (eventsOf res)
                \<and> ShowResult r \<in> set (eventsOf res))"
    if loc: "\<forall>i. localPutOk (env i)"
      and p: "PutFile GitHub h m (Some err) \<in> set (eventsOf res) \<and> transient err"
    for h m err
  proof -
    have "hardPutEnds spinner res"
      unfolding res_def using loc by (rule commitLoop_hardPutEnds)
    moreover from p have "PutFile GitHub h m (Some err) \<in> set (eventsOf res) \<and> hard err"
      by (simp add: transient_hard)
    ultimately have m: "m = assignments (state (finalOf res))"
      and "\<exists>r. outcomeOf res = FallenBack r \<and> Assigned spinner r \<in> set (eventsOf res)"
      unfolding hardPutEnds_def by blast+
    then obtain r where r: "outcomeOf res = FallenBack r" "Assigned spinner r \<in> set (eventsOf res)"
      by blast
    from fb r(1) have st: "store (finalOf res) = Local"
      and li: "localItem (finalOf res) = Some (Json (Some (assignments (state (finalOf res)))))"
      and "\<exists>pre err. eventsOf res =
              pre @ [ConsoleError err, Toast GitHubWriteFailed,
                     FallbackPut (assignments (state (finalOf res))), ShowResult r]"
      unfolding fellBack_def by blast+
    then have "ShowResult r \<in> set (eventsOf res)" by auto
    with m st li r show ?thesis by blast
  qed
  from 1 2 show ?thesis
    unfolding commitAssignment_def res_def [symmetric] by blast
qed

text \<open>
  A transient failure that comes after a conflict: the first write is rejected with 409,
  the write of the commit that the adjustment spin starts is answered with 503. The
  commit falls back at once, with the recipient \<open>C\<close> of that attempt.
\<close>

theorem transient_write_failure_not_retried_witness:
  "(\<forall>i. localPutOk (exampleLate i))
   \<and> PutFile GitHub (Some ''s0'') [(''A'', ''C'')] (Some (HttpError 503))
       \<in> set (eventsOf (commitAssignment exampleLate (exampleClient []) ''A'' ''B'' False))
   \<and> transient (HttpError 503)
   \<and> failuresEnd transient (eventsOf (commitAssignment exampleLate (exampleClient []) ''A'' ''B'' False))
   \<and> [(''A'', ''C'')] = assignments (state (finalOf (commitAssignment exampleLate (exampleClient []) ''A'' ''B'' False)))
   \<and> store (finalOf (commitAssignment exampleLate (exampleClient []) ''A'' ''B'' False)) = Local
   \<and> localItem (finalOf (commitAssignment exampleLate (exampleClient []) ''A'' ''B'' False))
       = Some (Json (Some [(''A'', ''C'')]))
   \<and> (\<exists>r. outcomeOf (commitAssignment exampleLate (exampleClient []) ''A'' ''B'' False) = FallenBack r
        \<and> Assigned ''A'' r \<in> set (eventsOf (commitAssignment exampleLate (exampleClient []) ''A'' ''B'' False))
        \<and> ShowResult r \<in> set (eventsOf (commitAssignment exampleLate (exampleClient []) ''A'' ''B'' False)))"
proof -
  define res where "res = commitAssignment exampleLate (exampleClient []) ''A'' ''B'' False"
  have loc: "\<forall>i. localPutOk (exampleLate i)"
    by (simp add: exampleLate_def)
  have p: "PutFile GitHub (Some ''s0'') [(''A'', ''C'')] (Some (HttpError 503)) \<in> set (eventsOf res)"
    unfolding res_def by (simp add: run_defs)
  have t: "transient (HttpError 503)"
    by (simp add: responseOk_def)
  note inst = transient_write_failure_not_retried
    [of exampleLate "exampleClient []" "''A''" "''B''" False, folded res_def]
  from inst have f: "failuresEnd transient (eventsOf res)"
    by (rule conjunct1)
  from inst have "(\<forall>i. localPutOk (exampleLate i)) \<longrightarrow>
        (\<forall>h m err. PutFile GitHub h m (Some err) \<in> set (eventsOf res) \<and> transient err \<longrightarrow>
           m = assignments (state (finalOf res))
           \<and> store (finalOf res) = Local
           \<and> localItem (finalOf res) = Some (Json (Some m))
           \<and> (\<exists>r. outcomeOf res = FallenBack r
                \<and> Assigned ''A'' r \<in> set (eventsOf res)
                \<and> ShowResult r \<in> set (eventsOf res)))"
    by (rule conjunct2)
  from this loc have "\<forall>h m err. PutFile GitHub h m (Some err) \<in> set (eventsOf res) \<and> transient err \<longrightarrow>
           m = assignments (state (finalOf res))
           \<and> store (finalOf res) = Local
           \<and> localItem (finalOf res) = Some (Json (Some m))
           \<and> (\<exists>r. outcomeOf res = FallenBack r
                \<and> Assigned ''A'' r \<in> set (eventsOf res)
                \<and> ShowResult r \<in> set (eventsOf res))"
    by (rule mp)
  then have "\<forall>m err. PutFile GitHub (Some ''s0'') m (Some err) \<in> set (eventsOf res) \<and> transient err \<longrightarrow>
           m = assignments (state (finalOf res))
           \<and> store (finalOf res) = Local
           \<and> localItem (finalOf res) = Some (Json (Some m))
           \<and> (\<exists>r. outcomeOf res = FallenBack r
                \<and> Assigned ''A'' r \<in> set (eventsOf res)
                \<and> ShowResult r \<in> set (eventsOf res))"
    by (rule spec)
  then have "\<forall>err. PutFile GitHub (Some ''s0'') [(''A'', ''C'')] (Some err) \<in> set (eventsOf res) \<and> transient err \<longrightarrow>
           [(''A'', ''C'')] = assignments (state (finalOf res))
           \<and> store (finalOf res) = Local
           \<and> localItem (finalOf res) = Some (Json (Some [(''A'', ''C'')]))
           \<and> (\<exists>r. outcomeOf res = FallenBack r
                \<and> Assigned ''A'' r \<in> set (eventsOf res)
                \<and> ShowResult r \<in> set (eventsOf res))"
    by (rule spec)
  then have "PutFile GitHub (Some ''s0'') [(''A'', ''C'')] (Some (HttpError 503)) \<in> set (eventsOf res)
           \<and> transient (HttpError 503) \<longrightarrow>
           [(''A'', ''C'')] = assignments (state (finalOf res))
           \<and> store (finalOf res) = Local
           \<and> localItem (finalOf res) = Some (Json (Some [(''A'', ''C'')]))
           \<and> (\<exists>r. outcomeOf res = FallenBack r
                \<and> Assigned ''A'' r \<in> set (eventsOf res)
                \<and> ShowResult r \<in> set (eventsOf res))"
    by (rule spec)
  from this conjI [OF p t] have c: "[(''A'', ''C'')] = assignments (state (finalOf res))
           \<and> store (finalOf res) = Local
           \<and> localItem (finalOf res) = Some (Json (Some [(''A'', ''C'')]))
           \<and> (\<exists>r. outcomeOf res = FallenBack r
                \<and> Assigned ''A'' r \<in> set (eventsOf res)
                \<and> ShowResult r \<in> set (eventsOf res))"
    by (rule mp)
  show ?thesis
    unfolding res_def [symmetric]
    by (rule conjI [OF loc conjI [OF p conjI [OF t conjI [OF f c]]]])
qed

text \<open>
  C5 fails as stated. The first write is rejected by the network, the retry count is 3
  and a second write would be accepted; the spin writes to GitHub once, shows no retry
  toast, waits for no delay and ends fallen back.
\<close>

theorem transient_retry_counterexample:
  "handleSpin exampleFlaky ''A'' 0 (exampleClient [])
     = (((exampleClient [(''A'', ''B'')])\<lparr>store := Local,
          localItem := Some (Json (Some [(''A'', ''B'')]))\<rparr>),
        FallenBack ''B'',
        [SpinTo ''B'', GetFile GitHub (Some ''s0''), Assigned ''A'' ''B'',
         PutFile GitHub (Some ''s0'') [(''A'', ''B'')] (Some NetworkError),
         ConsoleError NetworkError, Toast GitHubWriteFailed,
         FallbackPut [(''A'', ''B'')], ShowResult ''B''])
   \<and> transient NetworkError
   \<and> githubPutFile (putResp (exampleFlaky 1)) = Inr ()
   \<and> maxRetriesOf (exampleClient []) = 3"
  by (simp add: run_defs)

section \<open>A store that forbids writes\<close>

text \<open>
  C6. Fallback on credential failure, as the code has it. Let the GitHub store be the
  active store, let every read of it return and every write to it be answered with 403,
  and let the local store work; the wheel is idle. Then \<open>commitAssignment\<close> shows no retry
  toast, waits for no delay and writes to GitHub at most once. It ends in one of two
  ways. Either its re-validation finds nobody eligible and it returns before any write.
  Or it ends fallen back: the trace ends with the logged error, the notice that the
  GitHub write failed, the write of the final ledger to the local store (which takes no
  sha) and the result modal with the recipient; the local store is then the active store
  and holds the final ledger. Every write to GitHub of the run got the answer 403 and
  carried the final ledger, and the run that made it ended fallen back with the recipient
  of a call of \<open>addAssignment\<close> for the spinner.
\<close>

theorem forbidden_write_falls_back:
  assumes gh: "store c = GitHub" and idle: "\<not> wheelSpinning c" and m: "0 < maxRetriesOf c"
    and rd: "readsWork env"
    and put: "\<forall>i. putResp (env i) = PutResponse 403"
    and loc: "\<forall>i. localPutOk (env i)"
  shows "((outcomeOf (commitAssignment env c spinner recipient isAdjustment) = NoEligible
           \<and> filter isGitHubPut (eventsOf (commitAssignment env c spinner recipient isAdjustment)) = [])
          \<or> (\<exists>r pre err.
                outcomeOf (commitAssignment env c spinner recipient isAdjustment) = FallenBack r
                \<and> store (finalOf (commitAssignment env c spinner recipient isAdjustment)) = Local
                \<and> localItem (finalOf (commitAssignment env c spinner recipient isAdjustment))
                    = Some (Json (Some (assignments
                        (state (finalOf (commitAssignment env c spinner recipient isAdjustment))))))
                \<and> eventsOf (commitAssignment env c spinner recipient isAdjustment)
                    = pre @ [ConsoleError err, Toast GitHubWriteFailed,
                             FallbackPut (assignments
                               (state (finalOf (commitAssignment env c spinner recipient isAdjustment)))),
                             ShowResult r]))
         \<and> filter isRetry (eventsOf (commitAssignment env c spinner recipient isAdjustment)) = []
         \<and> length (filter isGitHubPut (eventsOf (commitAssignment env c spinner recipient isAdjustment))) \<le> 1
         \<and> (\<forall>h content x.
               PutFile GitHub h content x
                 \<in> set (eventsOf (commitAssignment env c spinner recipient isAdjustment)) \<longrightarrow>
               x = Some (HttpError 403)
               \<and> content = assignments (state (finalOf (commitAssignment env c spinner recipient isAdjustment)))
               \<and> (\<exists>r. outcomeOf (commitAssignment env c spinner recipient isAdjustment) = FallenBack r
                    \<and> Assigned spinner r
                         \<in> set (eventsOf (commitAssignment env c spinner recipient isAdjustment))))"
proof -
  define res where "res = commitLoop env (maxRetriesOf c) 0 c spinner recipient isAdjustment 0"
  have ans: "githubPutFile (putResp (env i)) = Inl (HttpError 403)" for i
    using put by (simp add: responseOk_def)
  have hard: "putsFailHard env"
    unfolding putsFailHard_def using ans by (auto simp: hard_def)
  have fb: "fellBack res"
    unfolding res_def by (rule commitLoop_fellBack)
  have one: "filter isRetry (eventsOf res) = [] \<and> length (filter isGitHubPut (eventsOf res)) \<le> 1"
    unfolding res_def using hard by (rule commitLoop_one_write)
  have hp: "hardPutEnds spinner res"
    unfolding res_def using loc by (rule commitLoop_hardPutEnds)
  have pa: "putAnswered env res"
    unfolding res_def by (rule commitLoop_putAnswered)
  have ends: "outcomeOf res = NoEligible \<or> (\<exists>r. outcomeOf res = FallenBack r)"
    using commitLoop_ends_in_fallback [OF hard loc rd, of c 0 "maxRetriesOf c" 0 spinner recipient isAdjustment]
      gh idle m unfolding res_def by simp
  have puts: "x = Some (HttpError 403) \<and> content = assignments (state (finalOf res))
        \<and> (\<exists>r. outcomeOf res = FallenBack r \<and> Assigned spinner r \<in> set (eventsOf res))"
    if p: "PutFile GitHub h content x \<in> set (eventsOf res)" for h content x
  proof -
    from pa p obtain i where
      i: "githubPutFile (putResp (env i)) = (case x of None \<Rightarrow> Inr () | Some err \<Rightarrow> Inl err)"
      unfolding putAnswered_def by blast
    with ans [of i] have x: "x = Some (HttpError 403)"
      by (cases x) auto
    have "hard (HttpError 403)" by (simp add: hard_def)
    with hp p x show ?thesis
      unfolding hardPutEnds_def by blast
  qed
  have first: "(outcomeOf res = NoEligible \<and> filter isGitHubPut (eventsOf res) = [])
          \<or> (\<exists>r pre err. outcomeOf res = FallenBack r
                \<and> store (finalOf res) = Local
                \<and> localItem (finalOf res) = Some (Json (Some (assignments (state (finalOf res)))))
                \<and> eventsOf res = pre @ [ConsoleError err, Toast GitHubWriteFailed,
                                        FallbackPut (assignments (state (finalOf res))),
                                        ShowResult r])"
    using ends
  proof
    assume ne: "outcomeOf res = NoEligible"
    have "\<not> isGitHubPut e" if e: "e \<in> set (eventsOf res)" for e
    proof
      assume "isGitHubPut e"
      then obtain h content x where "e = PutFile GitHub h content x"
        by (cases e rule: isGitHubPut.cases) auto
      with e puts [of h content x] ne show False by auto
    qed
    then have "filter isGitHubPut (eventsOf res) = []"
      by (simp add: filter_empty_conv)
    with ne show ?thesis by blast
  next
    assume "\<exists>r. outcomeOf res = FallenBack r"
    then obtain r where r: "outcomeOf res = FallenBack r" by blast
    with fb show ?thesis
      unfolding fellBack_def by blast
  qed
  from first one puts show ?thesis
    unfolding commitAssignment_def res_def [symmetric] by blast
qed

text \<open>
  A repository that answers every write with 403: the spin of \<open>A\<close> with the target \<open>B\<close>
  ends fallen back after one write.
\<close>

theorem forbidden_write_falls_back_witness:
  "store (exampleClient []) = GitHub \<and> \<not> wheelSpinning (exampleClient [])
   \<and> 0 < maxRetriesOf (exampleClient [])
   \<and> readsWork (exampleRemote ''A'' [] ''s0'' (PutResponse 403))
   \<and> (\<forall>i. putResp (exampleRemote ''A'' [] ''s0'' (PutResponse 403) i) = PutResponse 403)
   \<and> (\<forall>i. localPutOk (exampleRemote ''A'' [] ''s0'' (PutResponse 403) i))
   \<and> outcomeOf (commitAssignment (exampleRemote ''A'' [] ''s0'' (PutResponse 403)) (exampleClient []) ''A'' ''B'' False)
       = FallenBack ''B''
   \<and> filter isRetry (eventsOf (commitAssignment (exampleRemote ''A'' [] ''s0'' (PutResponse 403)) (exampleClient []) ''A'' ''B'' False)) = []
   \<and> length (filter isGitHubPut (eventsOf (commitAssignment (exampleRemote ''A'' [] ''s0'' (PutResponse 403)) (exampleClient []) ''A'' ''B'' False))) \<le> 1"
proof -
  define res where "res = commitAssignment (exampleRemote ''A'' [] ''s0'' (PutResponse 403)) (exampleClient []) ''A'' ''B'' False"
  have gh: "store (exampleClient []) = GitHub"
    by (simp add: exampleClient_def)
  have idle: "\<not> wheelSpinning (exampleClient [])"
    by (simp add: exampleClient_def)
  have m: "0 < maxRetriesOf (exampleClient [])"
    by (simp add: exampleClient_def maxRetriesOf_def)
  have rd: "readsWork (exampleRemote ''A'' [] ''s0'' (PutResponse 403))"
    by (simp add: readsWork_def exampleRemote_def exampleEnv_def responseOk_def)
  have put: "\<forall>i. putResp (exampleRemote ''A'' [] ''s0'' (PutResponse 403) i) = PutResponse 403"
    by (simp add: exampleRemote_def exampleEnv_def)
  have loc: "\<forall>i. localPutOk (exampleRemote ''A'' [] ''s0'' (PutResponse 403) i)"
    by (simp add: exampleRemote_def exampleEnv_def)
  have out: "outcomeOf res = FallenBack ''B''"
    unfolding res_def by (simp add: run_defs)
  note inst = forbidden_write_falls_back [OF gh idle m rd put loc, of "''A''" "''B''" False,
      folded res_def]
  from inst have r: "filter isRetry (eventsOf res) = []"
    by (rule conjunct2 [THEN conjunct1])
  from inst have w: "length (filter isGitHubPut (eventsOf res)) \<le> 1"
    by (rule conjunct2 [THEN conjunct2, THEN conjunct1])
  show ?thesis
    unfolding res_def [symmetric]
    by (intro conjI gh idle m rd put loc out r w)
qed

text \<open>
  C6 fails as stated. A repository that forbids the token answers the read with 403 as
  well. The read throws, \<open>commitAssignment\<close> switches to the local store without a
  notice, and the write of the commit goes to the local store and is accepted: the run
  ends with the success return, not fallen back, and the notice that the GitHub write
  failed is never shown.
\<close>

theorem forbidden_read_commits_silently:
  "commitAssignment (exampleEnv (GetResponse 403 Null None) (PutResponse 403) ''A'')
        (exampleClient []) ''A'' ''B'' False
     = (((exampleClient [(''A'', ''B'')])\<lparr>store := Local,
          localItem := Some (Json (Some [(''A'', ''B'')]))\<rparr>),
        Committed ''B'',
        [GetFileFailed (HttpError 403), GetFile Local None, Assigned ''A'' ''B'',
         PutFile Local None [(''A'', ''B'')] None, ShowResult ''B''])
   \<and> githubPutFile (putResp (exampleEnv (GetResponse 403 Null None) (PutResponse 403) ''A'' 0))
       = Inl (HttpError 403)
   \<and> Toast GitHubWriteFailed
       \<notin> set (eventsOf (commitAssignment (exampleEnv (GetResponse 403 Null None) (PutResponse 403) ''A'')
                          (exampleClient []) ''A'' ''B'' False))"
proof -
  have run: "commitAssignment (exampleEnv (GetResponse 403 Null None) (PutResponse 403) ''A'')
        (exampleClient []) ''A'' ''B'' False
     = (((exampleClient [(''A'', ''B'')])\<lparr>store := Local,
          localItem := Some (Json (Some [(''A'', ''B'')]))\<rparr>),
        Committed ''B'',
        [GetFileFailed (HttpError 403), GetFile Local None, Assigned ''A'' ''B'',
         PutFile Local None [(''A'', ''B'')] None, ShowResult ''B''])"
    by (simp add: run_defs)
  have ans: "githubPutFile (putResp (exampleEnv (GetResponse 403 Null None) (PutResponse 403) ''A'' 0))
       = Inl (HttpError 403)"
    by (simp add: exampleEnv_def responseOk_def)
  have quiet: "Toast GitHubWriteFailed
       \<notin> set (eventsOf (commitAssignment (exampleEnv (GetResponse 403 Null None) (PutResponse 403) ''A'')
                          (exampleClient []) ''A'' ''B'' False))"
    unfolding run by simp
  show ?thesis
    by (intro conjI run ans quiet)
qed

section \<open>Spins on an exhausted ledger\<close>




section \<open>The wait after a conflict\<close>

text \<open>
  C8. Constant conflict backoff. In every run of \<open>commitAssignment\<close>, with \<open>m\<close> the retry
  count of the configuration: every write that is rejected with 409 while the new count
  of conflicts is below \<open>m\<close> is directly followed by the retry toast with that count, a
  delay of 1000 milliseconds and a new read of the state file; a write rejected with
  409 that exhausts the count is followed by the logged 409 instead. Every delay of the
  run lasts 1000 milliseconds, whatever the count, and is directly followed by a read.
  Every write of the commit passes the sha returned by the most recent read before it.
\<close>

theorem conflict_backoff_constant_and_fresh:
  "conflictsHandled (maxRetriesOf c) 0 (eventsOf (commitAssignment env c spinner recipient isAdjustment))
   \<and> backoffOk (eventsOf (commitAssignment env c spinner recipient isAdjustment))
   \<and> writesFresh prev (eventsOf (commitAssignment env c spinner recipient isAdjustment))
   \<and> (\<forall>d. Delay d \<in> set (eventsOf (commitAssignment env c spinner recipient isAdjustment))
          \<longrightarrow> d = 1000)"
proof -
  define res where "res = commitLoop env (maxRetriesOf c) 0 c spinner recipient isAdjustment 0"
  have t: "traceOk (maxRetriesOf c) 0 (eventsOf res)"
    unfolding res_def by (rule commitLoop_traceOk)
  from t have 1: "conflictsHandled (maxRetriesOf c) 0 (eventsOf res)"
    by (simp add: traceOk_def)
  from t have 2: "backoffOk (eventsOf res)"
    by (simp add: traceOk_def)
  from t have 3: "writesFresh prev (eventsOf res)"
    by (simp add: traceOk_def)
  have 4: "\<forall>d. Delay d \<in> set (eventsOf res) \<longrightarrow> d = 1000"
    using 2 by (blast intro: backoffOk_delay)
  show ?thesis
    unfolding commitAssignment_def res_def [symmetric]
    by (intro conjI 1 2 3 4)
qed

text \<open>
  The run in which every write is rejected with 409: its trace passes the three checks,
  it holds a delay of 1000 milliseconds, and a trace that goes from a rejected write
  straight to the next write does not pass.
\<close>

theorem conflict_backoff_constant_and_fresh_witness:
  "conflictsHandled (maxRetriesOf (exampleClient [])) 0
     (eventsOf (commitAssignment (exampleRemote ''A'' [] ''s0'' (PutResponse 409)) (exampleClient []) ''A'' ''B'' False))
   \<and> backoffOk (eventsOf (commitAssignment (exampleRemote ''A'' [] ''s0'' (PutResponse 409)) (exampleClient []) ''A'' ''B'' False))
   \<and> writesFresh None (eventsOf (commitAssignment (exampleRemote ''A'' [] ''s0'' (PutResponse 409)) (exampleClient []) ''A'' ''B'' False))
   \<and> Delay 1000 \<in> set (eventsOf (commitAssignment (exampleRemote ''A'' [] ''s0'' (PutResponse 409)) (exampleClient []) ''A'' ''B'' False))
   \<and> (1000::nat) = 1000
   \<and> \<not> conflictsHandled 3 0
         [GetFile GitHub (Some ''s0''), Assigned ''A'' ''B'',
          PutFile GitHub (Some ''s0'') [(''A'', ''B'')] (Some (HttpError 409)),
          Assigned ''A'' ''B'',
          PutFile GitHub (Some ''s0'') [(''A'', ''B'')] None, ShowResult ''B'']"
proof -
  define res where "res = commitAssignment (exampleRemote ''A'' [] ''s0'' (PutResponse 409)) (exampleClient []) ''A'' ''B'' False"
  note inst = conflict_backoff_constant_and_fresh
    [of "exampleClient []" "exampleRemote ''A'' [] ''s0'' (PutResponse 409)" "''A''" "''B''" False None,
     folded res_def]
  from inst have 1: "conflictsHandled (maxRetriesOf (exampleClient [])) 0 (eventsOf res)"
    by (rule conjunct1)
  from inst have 2: "backoffOk (eventsOf res)"
    by (rule conjunct2 [THEN conjunct1])
  from inst have 3: "writesFresh None (eventsOf res)"
    by (rule conjunct2 [THEN conjunct2, THEN conjunct1])
  from inst have "\<forall>d. Delay d \<in> set (eventsOf res) \<longrightarrow> d = 1000"
    by (rule conjunct2 [THEN conjunct2, THEN conjunct2])
  then have imp: "Delay 1000 \<in> set (eventsOf res) \<longrightarrow> (1000::nat) = 1000"
    by (rule spec)
  have 4: "Delay 1000 \<in> set (eventsOf res)"
    unfolding res_def by (simp add: run_defs)
  from imp 4 have 5: "(1000::nat) = 1000"
    by (rule mp)
  have 6: "\<not> conflictsHandled 3 0
         [GetFile GitHub (Some ''s0''), Assigned ''A'' ''B'',
          PutFile GitHub (Some ''s0'') [(''A'', ''B'')] (Some (HttpError 409)),
          Assigned ''A'' ''B'',
          PutFile GitHub (Some ''s0'') [(''A'', ''B'')] None, ShowResult ''B'']"
    by simp
  show ?thesis
    unfolding res_def [symmetric]
    by (intro conjI 1 2 3 4 5 6)
qed

text \<open>
  C8 fails as stated. With the default retry count 3 and every write rejected with 409,
  the retry toasts and delays of one spin are, in order: retry 1 of 3 and 1000; then,
  in the commit started by the adjustment spin, retry 1 of 3 and 1000, retry 2 of 3 and
  1000. The delay after the second conflict of a commit is 1000 milliseconds, not 2000.
\<close>

theorem linear_backoff_counterexample:
  "filter isRetry (eventsOf (handleSpin (exampleRemote ''A'' [] ''s0'' (PutResponse 409)) ''A'' 0 (exampleClient [])))
     = [Toast (ConflictRetrying 1 3), Delay 1000,
        Toast (ConflictRetrying 1 3), Delay 1000,
        Toast (ConflictRetrying 2 3), Delay 1000]"
  by (simp add: run_defs)

end
